theory Spec2Isabelle
  imports Main "HOL-Library.AList" "HOL-Library.Extended_Nat"
begin

section \<open>Python values used by the solver\<close>

text \<open>
  The file under verification is \<^verbatim>\<open>Project-2/submission.py\<close>: the class
  \<^verbatim>\<open>BacktrackingSearch\<close> with its methods \<^verbatim>\<open>check_factors\<close>, \<^verbatim>\<open>solve\<close>,
  \<^verbatim>\<open>backtrack\<close>, \<^verbatim>\<open>get_unassigned_variable\<close> and \<^verbatim>\<open>arc_consistency_check\<close>.

  A Python dictionary is an association list in insertion order: a lookup reads the
  first pair with the key, \<^verbatim>\<open>d[k] = v\<close> is \<open>AList.update\<close> (overwrite in place, or
  append a new key at the end), \<^verbatim>\<open>del d[k]\<close> is \<open>AList.delete\<close>. Every exception the
  methods can raise is a value of \<open>error\<close>, and a method that can raise returns
  \<open>error + result\<close> with \<open>Inl\<close> for the exception.
\<close>

datatype error = KeyError | NameError | AssertionError | IndexError

type_synonym ('k, 'v) dict = "('k \<times> 'v) list"

definition getitem :: "('k, 'v) dict \<Rightarrow> 'k \<Rightarrow> error + 'v" where
  "getitem d k = (case map_of d k of None \<Rightarrow> Inl KeyError | Some v \<Rightarrow> Inr v)"

definition contains :: "('k, 'v) dict \<Rightarrow> 'k \<Rightarrow> bool" where
  "contains d k = (map_of d k \<noteq> None)"

definition delitem :: "('k, 'v) dict \<Rightarrow> 'k \<Rightarrow> error + ('k, 'v) dict" where
  "delitem d k = (if contains d k then Inr (AList.delete k d) else Inl KeyError)"

section \<open>The CSP container\<close>

text \<open>
  The module \<^verbatim>\<open>csp\<close> that \<^verbatim>\<open>submission.py\<close> imports is not part of the sources.
  The record below holds the attributes the solver reads from it: \<^verbatim>\<open>vars_num\<close>,
  \<^verbatim>\<open>variables\<close>, \<^verbatim>\<open>values\<close> (here \<open>csp_values\<close>), \<^verbatim>\<open>unary_factors\<close> (per variable
  \<^verbatim>\<open>None\<close> or a table from value to weight) and \<^verbatim>\<open>binary_factors\<close> (per variable a
  dictionary from neighbouring variable to a table from value to value to weight).
  The solver only ever compares a weight with zero, so weights are integers here.

  The type parameter \<open>'d\<close> is what a dictionary of lists is: the dictionary itself,
  with lists as values (\<open>CSP_val\<close>, used for all but one of the properties below), or a
  reference to a dictionary object in a store of objects (\<open>CSP_ref\<close>, used where it
  matters which object a write goes to).
\<close>

type_synonym 'a unary_table = "('a, int) dict"
type_synonym 'a binary_table = "('a, ('a, int) dict) dict"

record ('v, 'a, 'd) CSP =
  vars_num :: nat
  variables :: "'v list"
  csp_values :: 'd
  unary_factors :: "('v, 'a unary_table option) dict"
  binary_factors :: "('v, ('v, 'a binary_table) dict) dict"

type_synonym ('v, 'a) CSP_val = "('v, 'a, ('v, 'a list) dict) CSP"

text \<open>
  Modelled from the spec: \<^verbatim>\<open>CSP.get_neighbor_vars\<close> is defined in the missing module
  \<^verbatim>\<open>csp\<close>. The specification describes it as the query returning the variables that
  share a binary factor with the given variable, that is the keys of
  \<^verbatim>\<open>binary_factors[var]\<close>.
\<close>

definition get_neighbor_vars :: "('v, 'a, 'd) CSP \<Rightarrow> 'v \<Rightarrow> error + 'v list" where
  "get_neighbor_vars c var =
     (case getitem (binary_factors c) var of
        Inl e \<Rightarrow> Inl e
      | Inr factors \<Rightarrow> Inr (map fst factors))"

section \<open>The search object\<close>

text \<open>
  The attributes of a \<^verbatim>\<open>BacktrackingSearch\<close> instance. The assignment dictionary is
  not an attribute: \<^verbatim>\<open>backtrack\<close> receives it as an argument and mutates it in place, so
  the model passes it in and hands it back. \<^verbatim>\<open>self.domains\<close> is a dictionary of lists,
  of type \<open>'d\<close> as \<^verbatim>\<open>csp.values\<close> is.
\<close>

type_synonym ('v, 'a) assignment = "('v, 'a) dict"

record ('v, 'a, 'd) BacktrackingSearch =
  num_assignments :: nat
  num_operations :: nat
  first_assignment_num_operations :: nat
  all_assignments :: "('v, 'a) assignment list"
  csp :: "('v, 'a, 'd) CSP"
  mcv :: bool
  ac3 :: bool
  domains :: 'd

type_synonym ('v, 'a) BacktrackingSearch_val = "('v, 'a, ('v, 'a list) dict) BacktrackingSearch"

subsection \<open>\<^verbatim>\<open>check_factors\<close>\<close>

text \<open>
  Lines 89 to 91: \<^verbatim>\<open>if self.csp.unary_factors[var]:\<close> is true for a table that is
  neither \<^verbatim>\<open>None\<close> nor empty; only then is the weight of \<open>val\<close> read.
\<close>

definition check_unary :: "'a unary_table option \<Rightarrow> 'a \<Rightarrow> error + bool" where
  "check_unary table val =
     (case table of
        None \<Rightarrow> Inr True
      | Some [] \<Rightarrow> Inr True
      | Some (p # ps) \<Rightarrow>
          (case getitem (p # ps) val of
             Inl e \<Rightarrow> Inl e
           | Inr w \<Rightarrow> Inr (w \<noteq> 0)))"

text \<open>Lines 92 to 96: the loop over \<^verbatim>\<open>self.csp.binary_factors[var].items()\<close>.\<close>

fun check_binary ::
  "('v, 'a) assignment \<Rightarrow> 'a \<Rightarrow> ('v, 'a binary_table) dict \<Rightarrow> error + bool" where
  "check_binary assignment val [] = Inr True"
| "check_binary assignment val ((var2, factor) # rest) =
     (case map_of assignment var2 of
        None \<Rightarrow> check_binary assignment val rest
      | Some val2 \<Rightarrow>
          (case getitem factor val of
             Inl e \<Rightarrow> Inl e
           | Inr row \<Rightarrow>
               (case getitem row val2 of
                  Inl e \<Rightarrow> Inl e
                | Inr w \<Rightarrow>
                    if w = 0 then Inr False
                    else check_binary assignment val rest)))"

definition check_factors ::
  "('v, 'a, 'd) BacktrackingSearch \<Rightarrow> ('v, 'a) assignment \<Rightarrow> 'v \<Rightarrow> 'a \<Rightarrow> error + bool" where
  "check_factors self assignment var val =
     (if contains assignment var then Inl AssertionError
      else
        (case getitem (unary_factors (csp self)) var of
           Inl e \<Rightarrow> Inl e
         | Inr table \<Rightarrow>
             (case check_unary table val of
                Inl e \<Rightarrow> Inl e
              | Inr False \<Rightarrow> Inr False
              | Inr True \<Rightarrow>
                  (case getitem (binary_factors (csp self)) var of
                     Inl e \<Rightarrow> Inl e
                   | Inr factors \<Rightarrow> check_binary assignment val factors))))"

subsection \<open>\<^verbatim>\<open>get_unassigned_variable\<close>\<close>

text \<open>
  Lines 191 to 193. When every variable is assigned the loop ends and the method
  returns \<^verbatim>\<open>None\<close>.
\<close>

fun first_unassigned :: "('v, 'a) assignment \<Rightarrow> 'v list \<Rightarrow> 'v option" where
  "first_unassigned assignment [] = None"
| "first_unassigned assignment (var # rest) =
     (if \<not> contains assignment var then Some var
      else first_unassigned assignment rest)"

text \<open>
  Line 200: \<^verbatim>\<open>sum(self.check_factors(assignment, var, x) for x in self.domains[var])\<close>
  counts the values for which \<^verbatim>\<open>check_factors\<close> is true, and raises what the first
  failing call raises.
\<close>

fun count_consistent ::
  "('v, 'a, 'd) BacktrackingSearch \<Rightarrow> ('v, 'a) assignment \<Rightarrow> 'v \<Rightarrow> 'a list \<Rightarrow> error + nat" where
  "count_consistent self assignment var [] = Inr 0"
| "count_consistent self assignment var (x # xs) =
     (case check_factors self assignment var x of
        Inl e \<Rightarrow> Inl e
      | Inr b \<Rightarrow>
          (case count_consistent self assignment var xs of
             Inl e \<Rightarrow> Inl e
           | Inr n \<Rightarrow> Inr ((if b then 1 else 0) + n)))"

definition num_consistent_val ::
  "('v, 'a) BacktrackingSearch_val \<Rightarrow> ('v, 'a) assignment \<Rightarrow> 'v \<Rightarrow> error + nat" where
  "num_consistent_val self assignment var =
     (case getitem (domains self) var of
        Inl e \<Rightarrow> Inl e
      | Inr d \<Rightarrow> count_consistent self assignment var d)"

text \<open>
  Lines 198 to 203, with \<^verbatim>\<open>float('inf')\<close> as \<open>\<infinity>\<close>: the running minimum and the
  variable that reached it.
\<close>

fun mcv_loop ::
  "('v, 'a) BacktrackingSearch_val \<Rightarrow> ('v, 'a) assignment \<Rightarrow> enat \<Rightarrow> 'v \<Rightarrow> 'v list \<Rightarrow> error + 'v" where
  "mcv_loop self assignment min_num_consistent_val var_mcv [] = Inr var_mcv"
| "mcv_loop self assignment min_num_consistent_val var_mcv (var # rest) =
     (if \<not> contains assignment var then
        (case num_consistent_val self assignment var of
           Inl e \<Rightarrow> Inl e
         | Inr n \<Rightarrow>
             if enat n < min_num_consistent_val
             then mcv_loop self assignment (enat n) var rest
             else mcv_loop self assignment min_num_consistent_val var_mcv rest)
      else mcv_loop self assignment min_num_consistent_val var_mcv rest)"

definition get_unassigned_variable ::
  "('v, 'a) BacktrackingSearch_val \<Rightarrow> ('v, 'a) assignment \<Rightarrow> error + 'v option" where
  "get_unassigned_variable self assignment =
     (if \<not> mcv self then Inr (first_unassigned assignment (variables (csp self)))
      else
        (case variables (csp self) of
           [] \<Rightarrow> Inl IndexError
         | v0 # _ \<Rightarrow>
             (case mcv_loop self assignment \<infinity> v0 (variables (csp self)) of
                Inl e \<Rightarrow> Inl e
              | Inr v \<Rightarrow> Inr (Some v))))"

subsection \<open>\<^verbatim>\<open>arc_consistency_check\<close>\<close>

text \<open>
  Lines 237 to 240: the loop over \<^verbatim>\<open>self.domains[current_var]\<close> that looks for a value
  supporting \<open>neighbor_val\<close>; it stops at the first nonzero weight. The four subscripts
  of line 238 are evaluated in every iteration.
\<close>

fun current_val_loop ::
  "('v, 'a, 'd) CSP \<Rightarrow> 'v \<Rightarrow> 'v \<Rightarrow> 'a \<Rightarrow> 'a list \<Rightarrow> error + bool" where
  "current_val_loop c current_var neighbor_var neighbor_val [] = Inr False"
| "current_val_loop c current_var neighbor_var neighbor_val (current_val # rest) =
     (case getitem (binary_factors c) current_var of
        Inl e \<Rightarrow> Inl e
      | Inr by_var \<Rightarrow>
     (case getitem by_var neighbor_var of
        Inl e \<Rightarrow> Inl e
      | Inr factor \<Rightarrow>
     (case getitem factor current_val of
        Inl e \<Rightarrow> Inl e
      | Inr row \<Rightarrow>
     (case getitem row neighbor_val of
        Inl e \<Rightarrow> Inl e
      | Inr w \<Rightarrow>
          if w \<noteq> 0 then Inr True
          else current_val_loop c current_var neighbor_var neighbor_val rest))))"

text \<open>Lines 242 to 246: the unary test, here on \<^verbatim>\<open>!= None\<close>.\<close>

definition uniary_change :: "('v, 'a, 'd) CSP \<Rightarrow> 'v \<Rightarrow> 'a \<Rightarrow> error + bool" where
  "uniary_change c neighbor_var neighbor_val =
     (case getitem (unary_factors c) neighbor_var of
        Inl e \<Rightarrow> Inl e
      | Inr None \<Rightarrow> Inr True
      | Inr (Some table) \<Rightarrow>
          (case getitem table neighbor_val of
             Inl e \<Rightarrow> Inl e
           | Inr w \<Rightarrow> Inr (w \<noteq> 0)))"

text \<open>
  Lines 233 to 255: the loop over the values of the neighbour. Its state is
  \<^verbatim>\<open>neighbor_domain\<close>, \<^verbatim>\<open>domain_change\<close>, \<^verbatim>\<open>self.domains\<close> and \<^verbatim>\<open>queue\<close>. The list it
  iterates is the one \<^verbatim>\<open>self.domains[neighbor_var]\<close> held when the loop started. Once
  \<^verbatim>\<open>domain_change\<close> is set, every iteration stores \<^verbatim>\<open>neighbor_domain\<close> under
  \<open>neighbor_var\<close> and appends \<open>neighbor_var\<close> to the queue; \<^verbatim>\<open>self.domains[current_var]\<close>
  is read afresh in every iteration.
\<close>

fun neighbor_val_loop ::
  "('v, 'a) CSP_val \<Rightarrow> 'v \<Rightarrow> 'v \<Rightarrow> 'a list \<Rightarrow>
   'a list \<times> bool \<times> ('v, 'a list) dict \<times> 'v list \<Rightarrow>
   error + 'a list \<times> bool \<times> ('v, 'a list) dict \<times> 'v list" where
  "neighbor_val_loop c current_var neighbor_var [] st = Inr st"
| "neighbor_val_loop c current_var neighbor_var (neighbor_val # rest)
     (neighbor_domain, domain_change, doms, queue) =
     (case getitem doms current_var of
        Inl e \<Rightarrow> Inl e
      | Inr current_domain \<Rightarrow>
     (case current_val_loop c current_var neighbor_var neighbor_val current_domain of
        Inl e \<Rightarrow> Inl e
      | Inr binary_change \<Rightarrow>
     (case uniary_change c neighbor_var neighbor_val of
        Inl e \<Rightarrow> Inl e
      | Inr unary_ok \<Rightarrow>
          if unary_ok \<and> binary_change then
            (if domain_change then
               neighbor_val_loop c current_var neighbor_var rest
                 (neighbor_domain @ [neighbor_val], True,
                  AList.update neighbor_var (neighbor_domain @ [neighbor_val]) doms,
                  queue @ [neighbor_var])
             else
               neighbor_val_loop c current_var neighbor_var rest
                 (neighbor_domain @ [neighbor_val], False, doms, queue))
          else
            neighbor_val_loop c current_var neighbor_var rest
              (neighbor_domain, True,
               AList.update neighbor_var neighbor_domain doms,
               queue @ [neighbor_var]))))"

text \<open>
  Lines 230 to 255: the loop over the neighbours of \<open>current_var\<close>. The third
  component of the state is the binding of the Python variable \<^verbatim>\<open>neighbor_var\<close>, which
  line 256 reads after the loop: \<open>None\<close> while no iteration has bound it.
\<close>

fun neighbor_var_loop ::
  "('v, 'a) CSP_val \<Rightarrow> 'v \<Rightarrow> 'v list \<Rightarrow>
   ('v, 'a list) dict \<times> 'v list \<times> 'v option \<Rightarrow>
   error + ('v, 'a list) dict \<times> 'v list \<times> 'v option" where
  "neighbor_var_loop c current_var [] st = Inr st"
| "neighbor_var_loop c current_var (neighbor_var # rest) (doms, queue, bound) =
     (case getitem doms neighbor_var of
        Inl e \<Rightarrow> Inl e
      | Inr neighbor_values \<Rightarrow>
     (case neighbor_val_loop c current_var neighbor_var neighbor_values
             ([], False, doms, queue) of
        Inl e \<Rightarrow> Inl e
      | Inr (neighbor_domain, domain_change, doms', queue') \<Rightarrow>
          neighbor_var_loop c current_var rest (doms', queue', Some neighbor_var)))"

text \<open>
  One pass of the \<^verbatim>\<open>while\<close> loop, lines 229 to 256, after \<^verbatim>\<open>queue.pop(0)\<close>: the
  neighbour loop and then the test of line 256. \<open>Inr (Inl doms)\<close> is
  \<^verbatim>\<open>return False\<close>; \<open>Inr (Inr st)\<close> goes round the loop again.
\<close>

definition while_body ::
  "('v, 'a) CSP_val \<Rightarrow> 'v \<Rightarrow> ('v, 'a list) dict \<times> 'v list \<times> 'v option \<Rightarrow>
   error + (('v, 'a list) dict + ('v, 'a list) dict \<times> 'v list \<times> 'v option)" where
  "while_body c current_var st =
     (case get_neighbor_vars c current_var of
        Inl e \<Rightarrow> Inl e
      | Inr neighbors \<Rightarrow>
     (case neighbor_var_loop c current_var neighbors st of
        Inl e \<Rightarrow> Inl e
      | Inr (doms, queue, bound) \<Rightarrow>
          (case bound of
             None \<Rightarrow> Inl NameError
           | Some neighbor_var \<Rightarrow>
               (case getitem doms neighbor_var of
                  Inl e \<Rightarrow> Inl e
                | Inr d \<Rightarrow>
                    if d = [] then Inr (Inl doms)
                    else Inr (Inr (doms, queue, bound))))))"

text \<open>
  The \<^verbatim>\<open>while len(queue)\<close> loop, lines 228 to 258. The total length of all working
  domains bounds the number of passes, which the termination proof below uses.
\<close>

definition total_size :: "('v, 'a list) dict \<Rightarrow> nat" where
  "total_size doms = sum_list (map (\<lambda>p. length (snd p)) doms)"

function ac3_while ::
  "('v, 'a) CSP_val \<Rightarrow> ('v, 'a list) dict \<times> 'v list \<times> 'v option \<Rightarrow>
   error + bool \<times> ('v, 'a list) dict" where
  "ac3_while c (doms, [], bound) = Inr (True, doms)"
| "ac3_while c (doms, current_var # queue, bound) =
     (case while_body c current_var (doms, queue, bound) of
        Inl e \<Rightarrow> Inl e
      | Inr (Inl doms') \<Rightarrow> Inr (False, doms')
      | Inr (Inr st) \<Rightarrow> ac3_while c st)"
  by pat_completeness auto

lemma total_size_update:
  "map_of doms k = Some old \<Longrightarrow>
   total_size (AList.update k new doms) + length old = total_size doms + length new"
  by (induction doms) (auto simp: total_size_def)

lemma neighbor_val_loop_shape:
  "neighbor_val_loop c cv nv vals (nd, ch, doms, q) = Inr (nd', ch', doms', q') \<Longrightarrow>
   (if ch then doms = AList.update nv nd doms0 else doms = doms0 \<and> q = q0) \<Longrightarrow>
   (if ch' then doms' = AList.update nv nd' doms0 else doms' = doms0 \<and> q' = q0) \<and>
   length nd' \<le> length nd + length vals \<and>
   (ch' \<and> \<not> ch \<longrightarrow> length nd' < length nd + length vals)"
proof (induction vals arbitrary: nd ch doms q)
  case Nil
  then show ?case by auto
next
  case (Cons v vals)
  from Cons.prems(1) consider
    (keep_changed) "ch" and
      "neighbor_val_loop c cv nv vals
         (nd @ [v], True, AList.update nv (nd @ [v]) doms, q @ [nv]) = Inr (nd', ch', doms', q')"
  | (keep) "\<not> ch" and
      "neighbor_val_loop c cv nv vals (nd @ [v], False, doms, q) = Inr (nd', ch', doms', q')"
  | (drop) 
      "neighbor_val_loop c cv nv vals
         (nd, True, AList.update nv nd doms, q @ [nv]) = Inr (nd', ch', doms', q')"
    by (auto split: sum.splits if_splits)
  then show ?case
  proof cases
    case keep_changed
    from Cons.IH [OF keep_changed(2), of ] Cons.prems(2) keep_changed(1) show ?thesis
      by (auto split: if_splits)
  next
    case keep
    from Cons.IH [OF keep(2)] Cons.prems(2) keep(1) show ?thesis
      by (auto split: if_splits)
  next
    case drop
    from Cons.IH [OF drop] Cons.prems(2) show ?thesis
      by (auto split: if_splits)
  qed
qed

lemma neighbor_var_loop_measure:
  "neighbor_var_loop c cv ns (doms, q, b) = Inr (doms', q', b') \<Longrightarrow>
   (doms' = doms \<and> q' = q) \<or> total_size doms' < total_size doms"
proof (induction ns arbitrary: doms q b)
  case Nil
  then show ?case by simp
next
  case (Cons n ns)
  from Cons.prems obtain d nd ch doms1 q1 where
    look: "map_of doms n = Some d" and
    vals: "neighbor_val_loop c cv n d ([], False, doms, q) = Inr (nd, ch, doms1, q1)" and
    rest: "neighbor_var_loop c cv ns (doms1, q1, Some n) = Inr (doms', q', b')"
    by (auto simp: getitem_def split: sum.splits option.splits)
  from neighbor_val_loop_shape [OF vals, of doms q]
  have shape: "if ch then doms1 = AList.update n nd doms \<and> length nd < length d
               else doms1 = doms \<and> q1 = q"
    by (auto split: if_splits)
  have one: "(doms1 = doms \<and> q1 = q) \<or> total_size doms1 < total_size doms"
  proof (cases ch)
    case True
    with shape total_size_update [OF look, of nd] show ?thesis by auto
  next
    case False
    with shape show ?thesis by simp
  qed
  from Cons.IH [OF rest] one show ?case by auto
qed

lemma while_body_measure:
  "while_body c cv (doms, q, b) = Inr (Inr (doms', q', b')) \<Longrightarrow>
   (doms' = doms \<and> q' = q) \<or> total_size doms' < total_size doms"
  unfolding while_body_def
  by (auto split: sum.splits option.splits if_splits prod.splits
           dest: neighbor_var_loop_measure)

termination ac3_while
  apply (relation "measures [\<lambda>(c, doms, q, b). total_size doms, \<lambda>(c, doms, q, b). length q]")
   apply simp
  subgoal for c doms current_var queue bound x2 st
    apply (cases st)
    apply (auto dest!: while_body_measure)
    done
  done

text \<open>
  \<^verbatim>\<open>arc_consistency_check(var)\<close>: the queue starts as \<^verbatim>\<open>[var]\<close>, the name
  \<^verbatim>\<open>neighbor_var\<close> is unbound, and the only attribute written is \<^verbatim>\<open>self.domains\<close>.
\<close>

definition arc_consistency_check ::
  "('v, 'a) BacktrackingSearch_val \<Rightarrow> 'v \<Rightarrow> error + bool \<times> ('v, 'a) BacktrackingSearch_val" where
  "arc_consistency_check self var =
     (case ac3_while (csp self) (domains self, [var], None) of
        Inl e \<Rightarrow> Inl e
      | Inr (succeed, doms) \<Rightarrow> Inr (succeed, self\<lparr>domains := doms\<rparr>))"

subsection \<open>\<^verbatim>\<open>backtrack\<close> and \<^verbatim>\<open>solve\<close>\<close>

text \<open>
  Lines 135 to 137: the copy of the complete assignment, in the order of
  \<^verbatim>\<open>self.csp.variables\<close>.
\<close>

fun copy_assignment ::
  "('v, 'a) assignment \<Rightarrow> 'v list \<Rightarrow> ('v, 'a) assignment \<Rightarrow> error + ('v, 'a) assignment" where
  "copy_assignment assignment [] new_assignment = Inr new_assignment"
| "copy_assignment assignment (var # rest) new_assignment =
     (case getitem assignment var of
        Inl e \<Rightarrow> Inl e
      | Inr val \<Rightarrow> copy_assignment assignment rest (AList.update var val new_assignment))"

text \<open>
  The statements of lines 134, 138 and 139 to 140, each as the change it makes to the
  object.
\<close>

definition count_solution ::
  "('v, 'a, 'd) BacktrackingSearch \<Rightarrow> ('v, 'a, 'd) BacktrackingSearch" where
  "count_solution self = self\<lparr>num_assignments := num_assignments self + 1\<rparr>"

definition append_solution ::
  "('v, 'a, 'd) BacktrackingSearch \<Rightarrow> ('v, 'a) assignment \<Rightarrow> ('v, 'a, 'd) BacktrackingSearch" where
  "append_solution self new_assignment =
     self\<lparr>all_assignments := all_assignments self @ [new_assignment]\<rparr>"

definition note_first_assignment ::
  "('v, 'a, 'd) BacktrackingSearch \<Rightarrow> ('v, 'a, 'd) BacktrackingSearch" where
  "note_first_assignment self =
     (if first_assignment_num_operations self = 0
      then self\<lparr>first_assignment_num_operations := num_operations self\<rparr>
      else self)"

text \<open>
  Lines 134 to 141, after the test of line 133 succeeded: one more solution. The counter
  is incremented before the loop of lines 136 and 137 copies the assignment, and that
  loop raises \<^verbatim>\<open>KeyError\<close> when a declared variable has no entry.
\<close>

definition record_solution ::
  "('v, 'a, 'd) BacktrackingSearch \<Rightarrow> ('v, 'a) assignment \<Rightarrow> error + ('v, 'a, 'd) BacktrackingSearch" where
  "record_solution self assignment =
     (case copy_assignment assignment (variables (csp self)) [] of
        Inl e \<Rightarrow> Inl e
      | Inr new_assignment \<Rightarrow>
          Inr (note_first_assignment (append_solution (count_solution self) new_assignment)))"

lemma record_solution_eq:
  "record_solution self assignment =
     (case copy_assignment assignment (variables (csp self)) [] of
        Inl e \<Rightarrow> Inl e
      | Inr new_assignment \<Rightarrow>
          Inr (self\<lparr>num_assignments := num_assignments self + 1,
                    all_assignments := all_assignments self @ [new_assignment],
                    first_assignment_num_operations :=
                      (if first_assignment_num_operations self = 0
                       then num_operations self
                       else first_assignment_num_operations self)\<rparr>))"
  by (simp add: record_solution_def count_solution_def append_solution_def
        note_first_assignment_def split: sum.splits)

text \<open>
  \<^verbatim>\<open>backtrack\<close> is recursive through the loops of lines 148 and 156, and each call
  binds one more variable. The first argument bounds the depth of the recursion: with
  none left the model gives \<open>None\<close>. \<open>backtrack_values\<close> is the \<^verbatim>\<open>for val in
  ordered_values\<close> loop, for both settings of \<^verbatim>\<open>self.ac3\<close>. \<^verbatim>\<open>copy.deepcopy\<close> of a
  dictionary of lists is the same dictionary as a value.
\<close>

fun backtrack ::
  "nat \<Rightarrow> ('v, 'a) BacktrackingSearch_val \<Rightarrow> ('v, 'a) assignment \<Rightarrow>
   (error + ('v, 'a) BacktrackingSearch_val \<times> ('v, 'a) assignment) option"
and backtrack_values ::
  "nat \<Rightarrow> ('v, 'a) BacktrackingSearch_val \<Rightarrow> ('v, 'a) assignment \<Rightarrow> 'v \<Rightarrow> 'a list \<Rightarrow>
   (error + ('v, 'a) BacktrackingSearch_val \<times> ('v, 'a) assignment) option" where
  "backtrack 0 self assignment = None"
| "backtrack (Suc depth) self assignment =
     (if length assignment = vars_num (csp self) then
        (case record_solution (self\<lparr>num_operations := num_operations self + 1\<rparr>) assignment of
           Inl e \<Rightarrow> Some (Inl e)
         | Inr self' \<Rightarrow> Some (Inr (self', assignment)))
      else
        (case get_unassigned_variable
                (self\<lparr>num_operations := num_operations self + 1\<rparr>) assignment of
           Inl e \<Rightarrow> Some (Inl e)
         | Inr None \<Rightarrow> Some (Inl KeyError)
         | Inr (Some var) \<Rightarrow>
             (case getitem (domains self) var of
                Inl e \<Rightarrow> Some (Inl e)
              | Inr ordered_values \<Rightarrow>
                  backtrack_values depth
                    (self\<lparr>num_operations := num_operations self + 1\<rparr>)
                    assignment var ordered_values)))"
| "backtrack_values depth self assignment var [] = Some (Inr (self, assignment))"
| "backtrack_values depth self assignment var (val # rest) =
     (case check_factors self assignment var val of
        Inl e \<Rightarrow> Some (Inl e)
      | Inr False \<Rightarrow> backtrack_values depth self assignment var rest
      | Inr True \<Rightarrow>
          if \<not> ac3 self then
            (case backtrack depth self (AList.update var val assignment) of
               None \<Rightarrow> None
             | Some (Inl e) \<Rightarrow> Some (Inl e)
             | Some (Inr (self1, assignment1)) \<Rightarrow>
                 (case delitem assignment1 var of
                    Inl e \<Rightarrow> Some (Inl e)
                  | Inr assignment2 \<Rightarrow>
                      backtrack_values depth self1 assignment2 var rest))
          else
            (case arc_consistency_check
                    (self\<lparr>domains := AList.update var [val] (domains self)\<rparr>) var of
               Inl e \<Rightarrow> Some (Inl e)
             | Inr (succeed, self1) \<Rightarrow>
                 (case (if succeed
                        then backtrack depth self1 (AList.update var val assignment)
                        else Some (Inr (self1, AList.update var val assignment))) of
                    None \<Rightarrow> None
                  | Some (Inl e) \<Rightarrow> Some (Inl e)
                  | Some (Inr (self2, assignment2)) \<Rightarrow>
                      (case delitem assignment2 var of
                         Inl e \<Rightarrow> Some (Inl e)
                       | Inr assignment3 \<Rightarrow>
                           backtrack_values depth
                             (self2\<lparr>domains := domains self\<rparr>) assignment3 var rest))))"

text \<open>
  Line 116: the dictionary comprehension that copies the declared domains into
  \<^verbatim>\<open>self.domains\<close>.
\<close>

fun initial_domains ::
  "('v, 'a list) dict \<Rightarrow> 'v list \<Rightarrow> ('v, 'a list) dict \<Rightarrow> error + ('v, 'a list) dict" where
  "initial_domains declared [] doms = Inr doms"
| "initial_domains declared (var # rest) doms =
     (case getitem declared var of
        Inl e \<Rightarrow> Inl e
      | Inr vals \<Rightarrow> initial_domains declared rest (AList.update var vals doms))"

text \<open>
  \<^verbatim>\<open>solve(csp, mcv, ac3)\<close>, lines 112 to 118. Every attribute of the object is
  overwritten before \<^verbatim>\<open>backtrack({})\<close> runs, so the result does not depend on the
  object's earlier state. The depth handed to \<open>backtrack\<close> is one more than the number
  of declared variables; \<open>solve_returns\<close> below shows that this never runs out.
\<close>

definition solve ::
  "('v, 'a) CSP_val \<Rightarrow> bool \<Rightarrow> bool \<Rightarrow> (error + ('v, 'a) BacktrackingSearch_val) option" where
  "solve c use_mcv use_ac3 =
     (case initial_domains (csp_values c) (variables c) [] of
        Inl e \<Rightarrow> Some (Inl e)
      | Inr doms \<Rightarrow>
          (case backtrack (Suc (length (variables c)))
                  \<lparr>num_assignments = 0, num_operations = 0,
                   first_assignment_num_operations = 0, all_assignments = [],
                   csp = c, mcv = use_mcv, ac3 = use_ac3, domains = doms\<rparr> [] of
             None \<Rightarrow> None
           | Some (Inl e) \<Rightarrow> Some (Inl e)
           | Some (Inr (self, assignment)) \<Rightarrow> Some (Inr self)))"

section \<open>The checker and the selector, loop by loop\<close>

text \<open>
  What the loop of \<^verbatim>\<open>check_factors\<close> over the binary factors returns, what the loop of
  the static selector returns, and what the loop of the MCV selector returns for any
  starting minimum \<open>m\<close> and any starting candidate \<open>v0\<close>: either no unassigned
  variable had a count below \<open>m\<close> and the candidate is kept, or the result is the first
  variable whose count is least.
\<close>

lemma check_binary_spec:
  "check_binary a val factors = Inr b \<Longrightarrow>
   b = (\<not> (\<exists>var2 factor val2 row. (var2, factor) \<in> set factors \<and> map_of a var2 = Some val2 \<and>
              map_of factor val = Some row \<and> map_of row val2 = Some 0))"
proof (induction factors)
  case Nil
  then show ?case by auto
next
  case (Cons p factors)
  obtain var2 factor where p: "p = (var2, factor)" by (cases p)
  show ?case
  proof (cases "map_of a var2")
    case None
    with Cons p show ?thesis by auto
  next
    case (Some val2)
    with Cons.prems p obtain row w where
      row: "map_of factor val = Some row" and w: "map_of row val2 = Some w"
      by (auto simp: getitem_def split: option.splits sum.splits)
    show ?thesis
    proof (cases "w = 0")
      case True
      with Cons.prems p Some row w have "b = False" by (simp add: getitem_def)
      with True p Some row w show ?thesis by auto
    next
      case False
      with Cons.prems p Some row w have "check_binary a val factors = Inr b"
        by (simp add: getitem_def)
      from Cons.IH [OF this] False p Some row w show ?thesis by auto
    qed
  qed
qed

lemma first_unassigned_spec:
  "\<exists>v\<in>set vars. \<not> contains a v \<Longrightarrow>
   \<exists>var pre post. first_unassigned a vars = Some var \<and> vars = pre @ var # post \<and>
      \<not> contains a var \<and> (\<forall>u\<in>set pre. contains a u)"
proof (induction vars)
  case Nil
  then show ?case by simp
next
  case (Cons v vars)
  show ?case
  proof (cases "contains a v")
    case False
    then have "first_unassigned a (v # vars) = Some v \<and> v # vars = [] @ v # vars \<and>
      \<not> contains a v \<and> (\<forall>u\<in>set []. contains a u)" by simp
    then show ?thesis by blast
  next
    case True
    with Cons.prems have "\<exists>u\<in>set vars. \<not> contains a u" by auto
    from Cons.IH [OF this] obtain var pre post where
      "first_unassigned a vars = Some var" "vars = pre @ var # post"
      "\<not> contains a var" "\<forall>u\<in>set pre. contains a u" by blast
    with True have "first_unassigned a (v # vars) = Some var \<and>
      v # vars = (v # pre) @ var # post \<and> \<not> contains a var \<and>
      (\<forall>u\<in>set (v # pre). contains a u)" by simp
    then show ?thesis by blast
  qed
qed

lemma mcv_loop_spec:
  "mcv_loop self a m v0 vars = Inr r \<Longrightarrow>
   (r = v0 \<and>
    (\<forall>u\<in>set vars. \<not> contains a u \<longrightarrow>
       (\<exists>k. num_consistent_val self a u = Inr k \<and> m \<le> enat k))) \<or>
   (\<exists>n pre post. vars = pre @ r # post \<and> \<not> contains a r \<and>
      num_consistent_val self a r = Inr n \<and> enat n < m \<and>
      (\<forall>u\<in>set pre. \<not> contains a u \<longrightarrow>
         (\<exists>k. num_consistent_val self a u = Inr k \<and> n < k)) \<and>
      (\<forall>u\<in>set post. \<not> contains a u \<longrightarrow>
         (\<exists>k. num_consistent_val self a u = Inr k \<and> n \<le> k)))"
  (is "_ \<Longrightarrow> ?keep m v0 vars \<or> ?found m vars")
proof (induction vars arbitrary: m v0)
  case Nil
  then show ?case by simp
next
  case (Cons v vars)
  show ?case
  proof (cases "contains a v")
    case True
    with Cons.prems have "mcv_loop self a m v0 vars = Inr r" by simp
    from Cons.IH [OF this] show ?thesis
    proof
      assume "?keep m v0 vars"
      with True have "?keep m v0 (v # vars)" by simp
      then show ?thesis ..
    next
      assume "?found m vars"
      then obtain n pre post where f: "vars = pre @ r # post" "\<not> contains a r"
        "num_consistent_val self a r = Inr n" "enat n < m"
        "\<forall>u\<in>set pre. \<not> contains a u \<longrightarrow> (\<exists>k. num_consistent_val self a u = Inr k \<and> n < k)"
        "\<forall>u\<in>set post. \<not> contains a u \<longrightarrow> (\<exists>k. num_consistent_val self a u = Inr k \<and> n \<le> k)"
        by blast
      from f(1) have "v # vars = (v # pre) @ r # post" by simp
      moreover from f(5) True
      have "\<forall>u\<in>set (v # pre). \<not> contains a u \<longrightarrow>
              (\<exists>k. num_consistent_val self a u = Inr k \<and> n < k)" by simp
      ultimately have "?found m (v # vars)" using f(2,3,4,6) by blast
      then show ?thesis ..
    qed
  next
    case False
    with Cons.prems obtain n0 where n0: "num_consistent_val self a v = Inr n0"
      by (cases "num_consistent_val self a v") simp_all
    show ?thesis
    proof (cases "enat n0 < m")
      case True
      with Cons.prems False n0 have "mcv_loop self a (enat n0) v vars = Inr r" by simp
      from Cons.IH [OF this] show ?thesis
      proof
        assume k: "?keep (enat n0) v vars"
        then have "v # vars = [] @ r # vars" by simp
        moreover from k have "\<forall>u\<in>set vars. \<not> contains a u \<longrightarrow>
              (\<exists>k. num_consistent_val self a u = Inr k \<and> n0 \<le> k)" by simp
        ultimately have "?found m (v # vars)" using k False n0 True
          by (metis empty_iff list.set(1))
        then show ?thesis ..
      next
        assume "?found (enat n0) vars"
        then obtain n pre post where f: "vars = pre @ r # post" "\<not> contains a r"
          "num_consistent_val self a r = Inr n" "enat n < enat n0"
          "\<forall>u\<in>set pre. \<not> contains a u \<longrightarrow> (\<exists>k. num_consistent_val self a u = Inr k \<and> n < k)"
          "\<forall>u\<in>set post. \<not> contains a u \<longrightarrow> (\<exists>k. num_consistent_val self a u = Inr k \<and> n \<le> k)"
          by blast
        from f(1) have "v # vars = (v # pre) @ r # post" by simp
        moreover from f(4,5) n0
        have "\<forall>u\<in>set (v # pre). \<not> contains a u \<longrightarrow>
                (\<exists>k. num_consistent_val self a u = Inr k \<and> n < k)" by simp
        moreover from f(4) True have "enat n < m" by (meson less_trans)
        ultimately have "?found m (v # vars)" using f(2,3,6) by blast
        then show ?thesis ..
      qed
    next
      case ge: False
      with Cons.prems False n0 have "mcv_loop self a m v0 vars = Inr r" by simp
      from Cons.IH [OF this] show ?thesis
      proof
        assume "?keep m v0 vars"
        with ge n0 have "?keep m v0 (v # vars)" by (simp add: not_less)
        then show ?thesis ..
      next
        assume "?found m vars"
        then obtain n pre post where f: "vars = pre @ r # post" "\<not> contains a r"
          "num_consistent_val self a r = Inr n" "enat n < m"
          "\<forall>u\<in>set pre. \<not> contains a u \<longrightarrow> (\<exists>k. num_consistent_val self a u = Inr k \<and> n < k)"
          "\<forall>u\<in>set post. \<not> contains a u \<longrightarrow> (\<exists>k. num_consistent_val self a u = Inr k \<and> n \<le> k)"
          by blast
        from f(1) have "v # vars = (v # pre) @ r # post" by simp
        moreover from f(4) ge have "n < n0"
          by (metis enat_ord_simps(2) less_trans not_less_iff_gr_or_eq)
        with f(5) n0
        have "\<forall>u\<in>set (v # pre). \<not> contains a u \<longrightarrow>
                (\<exists>k. num_consistent_val self a u = Inr k \<and> n < k)" by simp
        ultimately have "?found m (v # vars)" using f(2,3,4,6) by blast
        then show ?thesis ..
      qed
    qed
  qed
qed

text \<open>
  The count of line 200 is the number of values of the domain for which
  \<^verbatim>\<open>check_factors\<close> returns \<^verbatim>\<open>True\<close>, and it is returned whenever
  \<^verbatim>\<open>check_factors\<close> returns for every value of the domain. The MCV loop returns
  whenever every unassigned variable has a count.
\<close>

lemma count_consistent_filter:
  "count_consistent self a var d = Inr n \<Longrightarrow>
   n = length (filter (\<lambda>x. check_factors self a var x = Inr True) d)"
proof (induction d arbitrary: n)
  case Nil
  then show ?case by simp
next
  case (Cons x d)
  then show ?case by (auto split: sum.splits)
qed

lemma count_consistent_returns:
  "\<forall>x\<in>set d. \<exists>b. check_factors self a var x = Inr b \<Longrightarrow>
   \<exists>n. count_consistent self a var d = Inr n"
  by (induction d) auto

lemma num_consistent_val_filter:
  "num_consistent_val self a var = Inr n \<Longrightarrow>
   \<exists>d. map_of (domains self) var = Some d \<and>
       n = length (filter (\<lambda>x. check_factors self a var x = Inr True) d)"
  by (auto simp: num_consistent_val_def getitem_def dest: count_consistent_filter
           split: option.splits)

lemma num_consistent_val_returns:
  "map_of (domains self) var = Some d \<Longrightarrow>
   \<forall>x\<in>set d. \<exists>b. check_factors self a var x = Inr b \<Longrightarrow>
   \<exists>n. num_consistent_val self a var = Inr n"
  using count_consistent_returns [of d self a var]
  by (simp add: num_consistent_val_def getitem_def)

lemma mcv_loop_returns:
  "\<forall>u\<in>set vars. \<not> contains a u \<longrightarrow> (\<exists>k. num_consistent_val self a u = Inr k) \<Longrightarrow>
   \<exists>r. mcv_loop self a m v0 vars = Inr r"
  by (induction vars arbitrary: m v0) auto

section \<open>How a call of \<^verbatim>\<open>backtrack\<close> that returns is built\<close>

text \<open>
  The case rules below read a normal return of \<open>backtrack\<close> and of one round of
  \<open>backtrack_values\<close> backwards. \<open>backtrack_rel\<close> lifts any reflexive and transitive
  relation between search objects that the counter increment, the recording of a
  solution and a write to \<^verbatim>\<open>self.domains\<close> respect to whole calls; \<open>backtrack_frame\<close>
  says that a call hands back the assignment and the working domains it was given.
\<close>

lemma arc_consistency_check_writes_domains:
  "arc_consistency_check self var = Inr (succeed, self1) \<Longrightarrow>
   \<exists>doms. self1 = self\<lparr>domains := doms\<rparr>"
  by (auto simp: arc_consistency_check_def split: sum.splits)

lemma backtrack_Suc_cases:
  assumes "backtrack (Suc depth) self a = Some (Inr (self', a'))"
  obtains
    (terminal) "length a = vars_num (csp self)"
      "record_solution (self\<lparr>num_operations := num_operations self + 1\<rparr>) a = Inr self'"
      "a' = a"
  | (branch) var vals where "length a \<noteq> vars_num (csp self)"
      "get_unassigned_variable (self\<lparr>num_operations := num_operations self + 1\<rparr>) a
       = Inr (Some var)"
      "getitem (domains self) var = Inr vals"
      "backtrack_values depth (self\<lparr>num_operations := num_operations self + 1\<rparr>) a var vals
       = Some (Inr (self', a'))"
  using assms by (auto split: if_splits sum.splits option.splits)

lemma backtrack_values_Cons_cases:
  assumes "backtrack_values depth self a var (val # rest) = Some (Inr r)"
  obtains
    (skip) "check_factors self a var val = Inr False"
      "backtrack_values depth self a var rest = Some (Inr r)"
  | (plain) self1 a1 a2 where "check_factors self a var val = Inr True" "\<not> ac3 self"
      "backtrack depth self (AList.update var val a) = Some (Inr (self1, a1))"
      "delitem a1 var = Inr a2"
      "backtrack_values depth self1 a2 var rest = Some (Inr r)"
  | (pruned) self1 a2 where "check_factors self a var val = Inr True" "ac3 self"
      "arc_consistency_check (self\<lparr>domains := AList.update var [val] (domains self)\<rparr>) var
       = Inr (False, self1)"
      "delitem (AList.update var val a) var = Inr a2"
      "backtrack_values depth (self1\<lparr>domains := domains self\<rparr>) a2 var rest = Some (Inr r)"
  | (propagated) self1 self2 a1 a2 where "check_factors self a var val = Inr True" "ac3 self"
      "arc_consistency_check (self\<lparr>domains := AList.update var [val] (domains self)\<rparr>) var
       = Inr (True, self1)"
      "backtrack depth self1 (AList.update var val a) = Some (Inr (self2, a1))"
      "delitem a1 var = Inr a2"
      "backtrack_values depth (self2\<lparr>domains := domains self\<rparr>) a2 var rest = Some (Inr r)"
  using assms by (auto split: if_splits sum.splits option.splits bool.splits prod.splits)


lemma check_factors_unassigned:
  "check_factors self a var val = Inr b \<Longrightarrow> \<not> contains a var"
  by (auto simp: check_factors_def split: if_splits)

lemma delitem_update_fresh:
  "\<not> contains a var \<Longrightarrow> delitem (AList.update var val a) var = Inr a2 \<Longrightarrow> a2 = a"
  by (auto simp: delitem_def contains_def delete_update_same map_of_eq_None_iff
           split: if_splits)

lemma record_solution_domains:
  "record_solution self a = Inr self' \<Longrightarrow> domains self' = domains self"
  by (auto simp: record_solution_eq split: sum.splits)

lemma backtrack_rel:
  assumes refl: "\<And>s. R s s"
    and trans: "\<And>s s' s''. R s s' \<Longrightarrow> R s' s'' \<Longrightarrow> R s s''"
    and incr: "\<And>s. R s (s\<lparr>num_operations := num_operations s + 1\<rparr>)"
    and rec: "\<And>s a s'. record_solution (s\<lparr>num_operations := num_operations s + 1\<rparr>) a = Inr s'
                \<Longrightarrow> R s s'"
    and dom: "\<And>s d. R s (s\<lparr>domains := d\<rparr>)"
  shows "backtrack depth self a = Some (Inr (self', a')) \<Longrightarrow> R self self'"
proof (induction depth arbitrary: self a self' a')
  case 0
  then show ?case by simp
next
  case (Suc depth)
  have loop: "R s (fst r)" if "backtrack_values depth s b var vals = Some (Inr r)"
    for s b var vals r
    using that
  proof (induction vals arbitrary: s b)
    case Nil
    then show ?case by (auto simp: refl)
  next
    case (Cons val rest)
    from Cons.prems show ?case
    proof (cases rule: backtrack_values_Cons_cases)
      case skip
      then show ?thesis using Cons.IH by blast
    next
      case (plain self1 a1 a2)
      from Suc.IH [OF plain(3)] Cons.IH [OF plain(5)] show ?thesis
        by (rule trans)
    next
      case (pruned self1 a2)
      from arc_consistency_check_writes_domains [OF pruned(3)]
      obtain d where "self1 = s\<lparr>domains := d\<rparr>" by auto
      then have "self1\<lparr>domains := domains s\<rparr> = s" by simp
      with Cons.IH [OF pruned(5)] show ?thesis by simp
    next
      case (propagated self1 self2 a1 a2)
      from arc_consistency_check_writes_domains [OF propagated(3)]
      obtain d where "self1 = s\<lparr>domains := d\<rparr>" by auto
      then have "R s self1" using dom trans by fastforce
      moreover have "R self1 self2" using Suc.IH [OF propagated(4)] .
      moreover have "R self2 (self2\<lparr>domains := domains s\<rparr>)" by (rule dom)
      moreover have "R (self2\<lparr>domains := domains s\<rparr>) (fst r)"
        using Cons.IH [OF propagated(6)] .
      ultimately show ?thesis using trans by blast
    qed
  qed
  from Suc.prems show ?case
  proof (cases rule: backtrack_Suc_cases)
    case terminal
    then show ?thesis using rec by blast
  next
    case (branch var vals)
    from loop [OF branch(4)] incr [of self] show ?thesis
      using trans by fastforce
  qed
qed

lemma backtrack_frame:
  fixes self :: "('v, 'a) BacktrackingSearch_val"
  shows "backtrack depth self a = Some (Inr (self', a')) \<Longrightarrow>
   a' = a \<and> domains self' = domains self"
proof (induction depth arbitrary: self a self' a')
  case 0
  then show ?case by simp
next
  case (Suc depth)
  have loop: "snd r = b \<and> domains (fst r) = domains s"
    if "backtrack_values depth s b var vals = Some (Inr r)"
    for s :: "('v, 'a) BacktrackingSearch_val" and b var vals r
    using that
  proof (induction vals arbitrary: s b)
    case Nil
    then show ?case by auto
  next
    case (Cons val rest)
    from Cons.prems show ?case
    proof (cases rule: backtrack_values_Cons_cases)
      case skip
      then show ?thesis using Cons.IH by blast
    next
      case (plain self1 a1 a2)
      from Suc.IH [OF plain(3)] have "a1 = AList.update var val b"
        and d1: "domains self1 = domains s" by auto
      with plain(4) check_factors_unassigned [OF plain(1)] have "a2 = b"
        by (auto dest: delitem_update_fresh)
      with Cons.IH [OF plain(5)] d1 show ?thesis by simp
    next
      case (pruned self1 a2)
      from pruned(4) check_factors_unassigned [OF pruned(1)] have "a2 = b"
        by (auto dest: delitem_update_fresh)
      with Cons.IH [OF pruned(5)] show ?thesis by simp
    next
      case (propagated self1 self2 a1 a2)
      from Suc.IH [OF propagated(4)] have "a1 = AList.update var val b" by auto
      with propagated(5) check_factors_unassigned [OF propagated(1)] have "a2 = b"
        by (auto dest: delitem_update_fresh)
      with Cons.IH [OF propagated(6)] show ?thesis by simp
    qed
  qed
  from Suc.prems show ?case
  proof (cases rule: backtrack_Suc_cases)
    case terminal
    then show ?thesis by (auto dest: record_solution_domains)
  next
    case (branch var vals)
    from loop [OF branch(4)] show ?thesis by simp
  qed
qed

lemma solve_cases:
  assumes "solve c use_mcv use_ac3 = Some (Inr s)"
  obtains doms a where "initial_domains (csp_values c) (variables c) [] = Inr doms"
    "backtrack (Suc (length (variables c)))
       \<lparr>num_assignments = 0, num_operations = 0, first_assignment_num_operations = 0,
        all_assignments = [], csp = c, mcv = use_mcv, ac3 = use_ac3, domains = doms\<rparr> []
     = Some (Inr (s, a))"
  using assms by (auto simp: solve_def simp del: backtrack.simps split: sum.splits option.splits)




section \<open>The search always returns\<close>

text \<open>
  Every recursive call of \<^verbatim>\<open>backtrack\<close> is made after \<^verbatim>\<open>check_factors\<close> has
  accepted a value for a declared variable without an entry, so each level of the
  recursion binds one more declared variable. A depth above the number of declared
  variables that are still unbound is therefore never used up, and \<open>solve\<close>, which
  starts with one more than the number of declared variables, always gives a result:
  a search object or an exception.
\<close>

lemma backtrack_csp:
  fixes self :: "('v, 'a) BacktrackingSearch_val"
  shows "backtrack depth self a = Some (Inr (self', a')) \<Longrightarrow> csp self' = csp self"
  by (rule backtrack_rel [where R = "\<lambda>s s'. csp s' = csp s", rotated -1])
     (auto simp: record_solution_eq split: sum.splits)

lemma first_unassigned_member:
  "first_unassigned a vars = Some var \<Longrightarrow> var \<in> set vars"
  by (induction vars) (auto split: if_splits)

lemma get_unassigned_variable_member:
  assumes "get_unassigned_variable self a = Inr (Some var)"
  shows "var \<in> set (variables (csp self))"
proof (cases "mcv self")
  case False
  with assms show ?thesis
    by (auto simp: get_unassigned_variable_def dest: first_unassigned_member)
next
  case True
  with assms obtain v0 rest where vs: "variables (csp self) = v0 # rest"
    and loop: "mcv_loop self a \<infinity> v0 (variables (csp self)) = Inr var"
    by (cases "variables (csp self)";
        cases "mcv_loop self a \<infinity> (hd (variables (csp self))) (variables (csp self))")
       (auto simp: get_unassigned_variable_def)
  from mcv_loop_spec [OF loop] have "var = v0 \<or> var \<in> set (variables (csp self))"
    by auto
  with vs show ?thesis by auto
qed

lemma card_unassigned_update:
  assumes "var \<in> set vars" and "\<not> contains a var"
  shows "card (set vars - fst ` set (AList.update var val a)) < card (set vars - fst ` set a)"
proof -
  from assms(2) have "var \<notin> fst ` set a"
    by (simp add: contains_def map_of_eq_None_iff)
  with assms(1) have mem: "var \<in> set vars - fst ` set a" by simp
  have fin: "finite (set vars - fst ` set a)" by simp
  have eq: "set vars - fst ` set (AList.update var val a) = (set vars - fst ` set a) - {var}"
    by (auto simp: dom_update)
  from card_Diff1_less [OF fin mem] show ?thesis
    unfolding eq .
qed

lemma backtrack_returns:
  fixes self :: "('v, 'a) BacktrackingSearch_val"
  shows "card (set (variables (csp self)) - fst ` set a) < depth \<Longrightarrow>
         backtrack depth self a \<noteq> None"
proof (induction depth arbitrary: self a)
  case 0
  then show ?case by simp
next
  case (Suc depth)
  let ?vars = "variables (csp self)"
  have loop: "backtrack_values depth s b var vals \<noteq> None"
    if "csp s = csp self" "var \<in> set ?vars" "card (set ?vars - fst ` set b) \<le> depth"
    for s :: "('v, 'a) BacktrackingSearch_val" and b var vals
    using that
  proof (induction vals arbitrary: s)
    case Nil
    then show ?case by simp
  next
    case (Cons val rest)
    show ?case
    proof (cases "check_factors s b var val")
      case (Inl e)
      then show ?thesis by simp
    next
      case (Inr ok)
      then have fresh: "\<not> contains b var" by (rule check_factors_unassigned)
      from card_unassigned_update [OF Cons.prems(2) fresh, of val] Cons.prems(3)
      have less: "card (set ?vars - fst ` set (AList.update var val b)) < depth" by simp
      have unbind: "delitem (AList.update var val b) var = Inr b"
        using fresh
        by (auto simp: delitem_def contains_def delete_update_same map_of_eq_None_iff update_conv')
      show ?thesis
      proof (cases ok)
        case False
        with Inr Cons.IH [OF Cons.prems] show ?thesis by simp
      next
        case True
        show ?thesis
        proof (cases "ac3 s")
          case no: False
          from less Cons.prems(1)
          have "backtrack depth s (AList.update var val b) \<noteq> None"
            by (intro Suc.IH) simp
          then obtain r where r: "backtrack depth s (AList.update var val b) = Some r" by blast
          show ?thesis
          proof (cases r)
            case (Inl e)
            with Inr True no r show ?thesis by simp
          next
            case (Inr p)
            obtain s1 a1 where p: "p = (s1, a1)" by (cases p)
            from r Inr p backtrack_frame [of depth s "AList.update var val b" s1 a1]
            have a1: "a1 = AList.update var val b" by simp
            from r Inr p backtrack_csp [of depth s "AList.update var val b" s1 a1]
              Cons.prems(1)
            have "csp s1 = csp self" by simp
            from Cons.IH [OF this Cons.prems(2,3)]
            have "backtrack_values depth s1 b var rest \<noteq> None" .
            with \<open>check_factors s b var val = Inr ok\<close> True no r Inr p a1 unbind
            show ?thesis by simp
          qed
        next
          case yes: True
          show ?thesis
          proof (cases "arc_consistency_check
                          (s\<lparr>domains := AList.update var [val] (domains s)\<rparr>) var")
            case (Inl e)
            with Inr True yes show ?thesis by simp
          next
            case arc: (Inr q)
            obtain succeed s1 where q: "q = (succeed, s1)" by (cases q)
            from arc q arc_consistency_check_writes_domains
              [of "s\<lparr>domains := AList.update var [val] (domains s)\<rparr>" var succeed s1]
            obtain d where s1: "s1 = s\<lparr>domains := d\<rparr>" by auto
            with Cons.prems(1) have csp1: "csp s1 = csp self" by simp
            show ?thesis
            proof (cases succeed)
              case False
              have "csp (s1\<lparr>domains := domains s\<rparr>) = csp self" using csp1 by simp
              from Cons.IH [OF this Cons.prems(2,3)]
              have "backtrack_values depth (s1\<lparr>domains := domains s\<rparr>) b var rest \<noteq> None" .
              with Inr True yes arc q False unbind show ?thesis by simp
            next
              case ok2: True
              from less csp1
              have "backtrack depth s1 (AList.update var val b) \<noteq> None"
                by (intro Suc.IH) simp
              then obtain r where r: "backtrack depth s1 (AList.update var val b) = Some r"
                by blast
              show ?thesis
              proof (cases r)
                case (Inl e)
                with Inr True yes arc q ok2 r show ?thesis by simp
              next
                case res: (Inr p)
                obtain s2 a2 where p: "p = (s2, a2)" by (cases p)
                from r res p backtrack_frame [of depth s1 "AList.update var val b" s2 a2]
                have a2: "a2 = AList.update var val b" by simp
                from r res p backtrack_csp [of depth s1 "AList.update var val b" s2 a2] csp1
                have "csp (s2\<lparr>domains := domains s\<rparr>) = csp self" by simp
                from Cons.IH [OF this Cons.prems(2,3)]
                have "backtrack_values depth (s2\<lparr>domains := domains s\<rparr>) b var rest \<noteq> None" .
                with Inr True yes arc q ok2 r res p a2 unbind show ?thesis by simp
              qed
            qed
          qed
        qed
      qed
    qed
  qed
  show ?case
  proof (cases "length a = vars_num (csp self)")
    case True
    then show ?thesis by (simp split: sum.splits)
  next
    case False
    let ?s = "self\<lparr>num_operations := num_operations self + 1\<rparr>"
    show ?thesis
    proof (cases "get_unassigned_variable ?s a")
      case (Inl e)
      with False show ?thesis by simp
    next
      case (Inr sel)
      show ?thesis
      proof (cases sel)
        case None
        with False Inr show ?thesis by simp
      next
        case (Some var)
        with Inr get_unassigned_variable_member [of ?s a var]
        have mem: "var \<in> set ?vars" by simp
        show ?thesis
        proof (cases "getitem (domains self) var")
          case (Inl e)
          with False Inr Some show ?thesis by simp
        next
          case vals: (Inr vals)
          from Suc.prems have "card (set ?vars - fst ` set a) \<le> depth" by simp
          with mem have "backtrack_values depth ?s a var vals \<noteq> None"
            by (intro loop) simp_all
          with False Inr Some vals show ?thesis by simp
        qed
      qed
    qed
  qed
qed

lemma solve_returns: "solve c use_mcv use_ac3 \<noteq> None"
proof (cases "initial_domains (csp_values c) (variables c) []")
  case (Inl e)
  then show ?thesis by (simp add: solve_def)
next
  case (Inr doms)
  let ?s = "\<lparr>num_assignments = 0, num_operations = 0, first_assignment_num_operations = 0,
        all_assignments = [], csp = c, mcv = use_mcv, ac3 = use_ac3, domains = doms\<rparr>"
  have "card (set (variables (csp ?s)) - fst ` set []) < Suc (length (variables c))"
    by (simp add: card_length less_Suc_eq_le)
  then have "backtrack (Suc (length (variables c))) ?s [] \<noteq> None"
    by (rule backtrack_returns)
  with Inr show ?thesis
    by (auto simp: solve_def simp del: backtrack.simps split: sum.splits option.splits)
qed

section \<open>A variable without neighbours\<close>




section \<open>The calls and the loop iterations of a search\<close>

text \<open>
  A place is a point of a search at which a call or a loop iteration starts:
  \<open>Call depth self a\<close> is a call \<^verbatim>\<open>self.backtrack(a)\<close> about to run line 130, with the
  object in the state \<open>self\<close>; \<open>Loop depth self a var vals\<close> is the loop of line 148 or
  156 in a call that selected \<open>var\<close>, about to take the values \<open>vals\<close>, first the head
  of the list. \<open>outcome\<close> is what the run from a place ends with, and \<open>object_at\<close> the
  state of the object there.
\<close>

datatype ('v, 'a) place =
    Call nat "('v, 'a) BacktrackingSearch_val" "('v, 'a) assignment"
  | Loop nat "('v, 'a) BacktrackingSearch_val" "('v, 'a) assignment" 'v "'a list"

fun outcome ::
  "('v, 'a) place \<Rightarrow> (error + ('v, 'a) BacktrackingSearch_val \<times> ('v, 'a) assignment) option" where
  "outcome (Call depth self a) = backtrack depth self a"
| "outcome (Loop depth self a var vals) = backtrack_values depth self a var vals"

fun object_at :: "('v, 'a) place \<Rightarrow> ('v, 'a) BacktrackingSearch_val" where
  "object_at (Call depth self a) = self"
| "object_at (Loop depth self a var vals) = self"

text \<open>
  \<open>reaches p q\<close>: the run that starts at \<open>p\<close> gets to \<open>q\<close>. A call that does not record
  a solution selects a variable and enters the loop over its values (lines 143 and
  144). From a loop with a value left, the run goes on to the rest of the values when
  \<^verbatim>\<open>check_factors\<close> rejects the value (lines 149 and 150, 157 and 158); it enters the
  recursive call of line 152, or of line 165 when \<^verbatim>\<open>arc_consistency_check\<close> returned
  \<^verbatim>\<open>True\<close>; and when the round for the value has ended without an exception it goes
  on to the rest of the values, with the object and the assignment as lines 153, or
  168 and 169, leave them.
\<close>

inductive reaches :: "('v, 'a) place \<Rightarrow> ('v, 'a) place \<Rightarrow> bool"
  for p :: "('v, 'a) place" where
  start: "reaches p p"
| select:
    "reaches p (Call (Suc depth) self a) \<Longrightarrow>
     length a \<noteq> vars_num (csp self) \<Longrightarrow>
     get_unassigned_variable (self\<lparr>num_operations := num_operations self + 1\<rparr>) a
       = Inr (Some var) \<Longrightarrow>
     getitem (domains self) var = Inr ordered_values \<Longrightarrow>
     reaches p (Loop depth (self\<lparr>num_operations := num_operations self + 1\<rparr>) a var
                  ordered_values)"
| skip:
    "reaches p (Loop depth self a var (val # rest)) \<Longrightarrow>
     check_factors self a var val = Inr False \<Longrightarrow>
     reaches p (Loop depth self a var rest)"
| descend:
    "reaches p (Loop depth self a var (val # rest)) \<Longrightarrow>
     check_factors self a var val = Inr True \<Longrightarrow>
     \<not> ac3 self \<Longrightarrow>
     reaches p (Call depth self (AList.update var val a))"
| resume:
    "reaches p (Loop depth self a var (val # rest)) \<Longrightarrow>
     check_factors self a var val = Inr True \<Longrightarrow>
     \<not> ac3 self \<Longrightarrow>
     backtrack depth self (AList.update var val a) = Some (Inr (self1, a1)) \<Longrightarrow>
     delitem a1 var = Inr a2 \<Longrightarrow>
     reaches p (Loop depth self1 a2 var rest)"
| descend_ac3:
    "reaches p (Loop depth self a var (val # rest)) \<Longrightarrow>
     check_factors self a var val = Inr True \<Longrightarrow>
     ac3 self \<Longrightarrow>
     arc_consistency_check (self\<lparr>domains := AList.update var [val] (domains self)\<rparr>) var
       = Inr (True, self1) \<Longrightarrow>
     reaches p (Call depth self1 (AList.update var val a))"
| resume_ac3:
    "reaches p (Loop depth self a var (val # rest)) \<Longrightarrow>
     check_factors self a var val = Inr True \<Longrightarrow>
     ac3 self \<Longrightarrow>
     arc_consistency_check (self\<lparr>domains := AList.update var [val] (domains self)\<rparr>) var
       = Inr (succeed, self1) \<Longrightarrow>
     (if succeed then backtrack depth self1 (AList.update var val a)
      else Some (Inr (self1, AList.update var val a))) = Some (Inr (self2, a2)) \<Longrightarrow>
     delitem a2 var = Inr a3 \<Longrightarrow>
     reaches p (Loop depth (self2\<lparr>domains := domains self\<rparr>) a3 var rest)"

text \<open>
  \<open>visits p l s\<close>: in the run that starts at \<open>p\<close> the object is in the state \<open>s\<close>
  when line \<open>l\<close> has been executed. The lines are those of \<^verbatim>\<open>backtrack\<close> that write to
  the object: 130, 134, 138, 140 (the \<^verbatim>\<open>if\<close> of lines 139 and 140), 161, 163 (the
  writes of \<^verbatim>\<open>arc_consistency_check\<close>, which are to \<^verbatim>\<open>self.domains\<close> only) and 168.
\<close>

inductive visits :: "('v, 'a) place \<Rightarrow> nat \<Rightarrow> ('v, 'a) BacktrackingSearch_val \<Rightarrow> bool"
  for p :: "('v, 'a) place" where
  line_130:
    "reaches p (Call (Suc depth) self a) \<Longrightarrow>
     visits p 130 (self\<lparr>num_operations := num_operations self + 1\<rparr>)"
| line_134:
    "reaches p (Call (Suc depth) self a) \<Longrightarrow>
     length a = vars_num (csp self) \<Longrightarrow>
     visits p 134 (count_solution (self\<lparr>num_operations := num_operations self + 1\<rparr>))"
| line_138:
    "reaches p (Call (Suc depth) self a) \<Longrightarrow>
     length a = vars_num (csp self) \<Longrightarrow>
     copy_assignment a (variables (csp self)) [] = Inr new_assignment \<Longrightarrow>
     visits p 138
       (append_solution (count_solution (self\<lparr>num_operations := num_operations self + 1\<rparr>))
          new_assignment)"
| line_140:
    "reaches p (Call (Suc depth) self a) \<Longrightarrow>
     length a = vars_num (csp self) \<Longrightarrow>
     copy_assignment a (variables (csp self)) [] = Inr new_assignment \<Longrightarrow>
     visits p 140
       (note_first_assignment
          (append_solution (count_solution (self\<lparr>num_operations := num_operations self + 1\<rparr>))
             new_assignment))"
| line_161:
    "reaches p (Loop depth self a var (val # rest)) \<Longrightarrow>
     check_factors self a var val = Inr True \<Longrightarrow>
     ac3 self \<Longrightarrow>
     visits p 161 (self\<lparr>domains := AList.update var [val] (domains self)\<rparr>)"
| line_163:
    "reaches p (Loop depth self a var (val # rest)) \<Longrightarrow>
     check_factors self a var val = Inr True \<Longrightarrow>
     ac3 self \<Longrightarrow>
     arc_consistency_check (self\<lparr>domains := AList.update var [val] (domains self)\<rparr>) var
       = Inr (succeed, self1) \<Longrightarrow>
     visits p 163 self1"
| line_168:
    "reaches p (Loop depth self a var (val # rest)) \<Longrightarrow>
     check_factors self a var val = Inr True \<Longrightarrow>
     ac3 self \<Longrightarrow>
     arc_consistency_check (self\<lparr>domains := AList.update var [val] (domains self)\<rparr>) var
       = Inr (succeed, self1) \<Longrightarrow>
     (if succeed then backtrack depth self1 (AList.update var val a)
      else Some (Inr (self1, AList.update var val a))) = Some (Inr (self2, a2)) \<Longrightarrow>
     visits p 168 (self2\<lparr>domains := domains self\<rparr>)"


lemma reaches_runs_out:
  "reaches p q \<Longrightarrow> outcome q = None \<Longrightarrow> outcome p = None"
proof (induction rule: reaches.induct)
  case start
  then show ?case .
next
  case (select depth self a var ordered_values)
  from select.prems select.hyps(2,3,4) have "outcome (Call (Suc depth) self a) = None"
    by simp
  then show ?case by (rule select.IH)
next
  case (skip depth self a var val rest)
  from skip.prems skip.hyps(2) have "outcome (Loop depth self a var (val # rest)) = None"
    by simp
  then show ?case by (rule skip.IH)
next
  case (descend depth self a var val rest)
  from descend.prems descend.hyps(2,3)
  have "outcome (Loop depth self a var (val # rest)) = None" by simp
  then show ?case by (rule descend.IH)
next
  case (resume depth self a var val rest self1 a1 a2)
  from resume.prems resume.hyps(2,3,4,5)
  have "outcome (Loop depth self a var (val # rest)) = None" by simp
  then show ?case by (rule resume.IH)
next
  case (descend_ac3 depth self a var val rest self1)
  from descend_ac3.prems descend_ac3.hyps(2,3,4)
  have "outcome (Loop depth self a var (val # rest)) = None" by simp
  then show ?case by (rule descend_ac3.IH)
next
  case (resume_ac3 depth self a var val rest succeed self1 self2 a2 a3)
  from resume_ac3.prems resume_ac3.hyps(2,3,4,5,6)
  have "outcome (Loop depth self a var (val # rest)) = None" by simp
  then show ?case by (rule resume_ac3.IH)
qed

lemma reaches_rel:
  assumes refl: "\<And>s. R s s"
    and trans: "\<And>s s' s''. R s s' \<Longrightarrow> R s' s'' \<Longrightarrow> R s s''"
    and incr: "\<And>s. R s (s\<lparr>num_operations := num_operations s + 1\<rparr>)"
    and rec: "\<And>s a s'. record_solution (s\<lparr>num_operations := num_operations s + 1\<rparr>) a = Inr s'
                \<Longrightarrow> R s s'"
    and dom: "\<And>s d. R s (s\<lparr>domains := d\<rparr>)"
  shows "reaches p q \<Longrightarrow> R (object_at p) (object_at q)"
proof (induction rule: reaches.induct)
  case start
  show ?case by (rule refl)
next
  case (select depth self a var ordered_values)
  from select.IH incr [of self] show ?case by (auto intro: trans)
next
  case (skip depth self a var val rest)
  then show ?case by simp
next
  case (descend depth self a var val rest)
  then show ?case by simp
next
  case (resume depth self a var val rest self1 a1 a2)
  have "R self self1"
    using refl trans incr rec dom resume.hyps(4) by (rule backtrack_rel)
  with resume.IH show ?case by (auto intro: trans)
next
  case (descend_ac3 depth self a var val rest self1)
  from arc_consistency_check_writes_domains [OF descend_ac3.hyps(4)]
  obtain d where "self1 = self\<lparr>domains := d\<rparr>" by auto
  then have "R self self1" using dom trans by fastforce
  with descend_ac3.IH show ?case by (auto intro: trans)
next
  case (resume_ac3 depth self a var val rest succeed self1 self2 a2 a3)
  from arc_consistency_check_writes_domains [OF resume_ac3.hyps(4)]
  obtain d where "self1 = self\<lparr>domains := d\<rparr>" by auto
  then have 1: "R self self1" using dom trans by fastforce
  have 2: "R self1 self2"
  proof (cases succeed)
    case True
    with resume_ac3.hyps(5)
    have "backtrack depth self1 (AList.update var val a) = Some (Inr (self2, a2))" by simp
    with refl trans incr rec dom show ?thesis by (rule backtrack_rel)
  next
    case False
    with resume_ac3.hyps(5) show ?thesis by (simp add: refl)
  qed
  have 3: "R self2 (self2\<lparr>domains := domains self\<rparr>)" by (rule dom)
  from resume_ac3.IH 1 2 3 show ?case by (auto intro: trans)
qed


lemma reaches_keeps_count:
  "reaches p q \<Longrightarrow>
   num_assignments (object_at p) = length (all_assignments (object_at p)) \<longrightarrow>
   num_assignments (object_at q) = length (all_assignments (object_at q))"
  by (rule reaches_rel [where R = "\<lambda>s s'. num_assignments s = length (all_assignments s) \<longrightarrow>
                   num_assignments s' = length (all_assignments s')", rotated -1])
     (auto simp: record_solution_eq split: sum.splits)

lemma backtrack_keeps_count:
  fixes self :: "('v, 'a) BacktrackingSearch_val"
  shows "backtrack depth self a = Some (Inr (self', a')) \<Longrightarrow>
   num_assignments self = length (all_assignments self) \<longrightarrow>
   num_assignments self' = length (all_assignments self')"
  by (rule backtrack_rel [where R = "\<lambda>s s'. num_assignments s = length (all_assignments s) \<longrightarrow>
                   num_assignments s' = length (all_assignments s')", rotated -1])
     (auto simp: record_solution_eq split: sum.splits)

text \<open>
  The depth that \<open>solve\<close> hands to the first call is enough for every place its
  search reaches.
\<close>

lemma solve_reaches_in_depth:
  assumes "initial_domains (csp_values c) (variables c) [] = Inr doms"
    and "reaches
      (Call (Suc (length (variables c)))
         \<lparr>num_assignments = 0, num_operations = 0, first_assignment_num_operations = 0,
          all_assignments = [], csp = c, mcv = use_mcv, ac3 = use_ac3, domains = doms\<rparr> [])
      q"
  shows "outcome q \<noteq> None"
proof
  assume "outcome q = None"
  from reaches_runs_out [OF assms(2) this] assms(1)
  have "solve c use_mcv use_ac3 = None"
    by (simp add: solve_def del: backtrack.simps)
  with solve_returns show False by blast
qed

section \<open>Lists and dictionaries as objects\<close>

text \<open>
  The methods once more, now with every list and every dictionary of lists as an
  object in a store, and with \<^verbatim>\<open>csp.values\<close> and \<^verbatim>\<open>self.domains\<close> as references to
  such objects. A reference is the position of the object in the store and a new
  object goes to the end. Reading a reference that holds no object of the expected kind
  has no counterpart in Python; the model has no result there (\<open>None\<close>), as it has
  none when the depth given to \<open>backtrack_store\<close> is used up or when the \<^verbatim>\<open>while\<close>
  loop does not end. The methods that neither read nor write a dictionary of lists
  (\<open>check_factors\<close> and the loops it is built from) are the ones defined above.
\<close>

datatype ('v, 'a) object = ListObject "'a list" | DictObject "('v, nat) dict"

type_synonym ('v, 'a) store = "('v, 'a) object list"
type_synonym ('v, 'a) CSP_ref = "('v, 'a, nat) CSP"
type_synonym ('v, 'a) BacktrackingSearch_ref = "('v, 'a, nat) BacktrackingSearch"

definition list_at :: "('v, 'a) store \<Rightarrow> nat \<Rightarrow> 'a list option" where
  "list_at h r =
     (if r < length h then (case h ! r of ListObject xs \<Rightarrow> Some xs | DictObject d \<Rightarrow> None)
      else None)"

definition dict_at :: "('v, 'a) store \<Rightarrow> nat \<Rightarrow> ('v, nat) dict option" where
  "dict_at h r =
     (if r < length h then (case h ! r of ListObject xs \<Rightarrow> None | DictObject d \<Rightarrow> Some d)
      else None)"

definition new_object :: "('v, 'a) store \<Rightarrow> ('v, 'a) object \<Rightarrow> nat \<times> ('v, 'a) store" where
  "new_object h obj = (length h, h @ [obj])"

text \<open>\<^verbatim>\<open>xs.append(x)\<close> and \<^verbatim>\<open>d[k] = r\<close> on the objects behind two references.\<close>

definition list_append :: "('v, 'a) store \<Rightarrow> nat \<Rightarrow> 'a \<Rightarrow> ('v, 'a) store option" where
  "list_append h r x =
     (case list_at h r of
        None \<Rightarrow> None
      | Some xs \<Rightarrow> Some (h[r := ListObject (xs @ [x])]))"

definition dict_setitem :: "('v, 'a) store \<Rightarrow> nat \<Rightarrow> 'v \<Rightarrow> nat \<Rightarrow> ('v, 'a) store option" where
  "dict_setitem h d k r =
     (case dict_at h d of
        None \<Rightarrow> None
      | Some entries \<Rightarrow> Some (h[d := DictObject (AList.update k r entries)]))"

text \<open>\<^verbatim>\<open>d[var]\<close> for a dictionary of lists \<open>d\<close>: the list that the entry refers to.\<close>

definition domain_at :: "('v, 'a) store \<Rightarrow> nat \<Rightarrow> 'v \<Rightarrow> (error + 'a list) option" where
  "domain_at h d var =
     (case dict_at h d of
        None \<Rightarrow> None
      | Some entries \<Rightarrow>
          (case getitem entries var of
             Inl e \<Rightarrow> Some (Inl e)
           | Inr r \<Rightarrow>
               (case list_at h r of
                  None \<Rightarrow> None
                | Some xs \<Rightarrow> Some (Inr xs))))"

subsection \<open>\<^verbatim>\<open>get_unassigned_variable\<close> on the store\<close>

definition num_consistent_val_store ::
  "('v, 'a) store \<Rightarrow> ('v, 'a) BacktrackingSearch_ref \<Rightarrow> ('v, 'a) assignment \<Rightarrow> 'v \<Rightarrow>
   (error + nat) option" where
  "num_consistent_val_store h self assignment var =
     (case domain_at h (domains self) var of
        None \<Rightarrow> None
      | Some (Inl e) \<Rightarrow> Some (Inl e)
      | Some (Inr d) \<Rightarrow> Some (count_consistent self assignment var d))"

fun mcv_loop_store ::
  "('v, 'a) store \<Rightarrow> ('v, 'a) BacktrackingSearch_ref \<Rightarrow> ('v, 'a) assignment \<Rightarrow> enat \<Rightarrow> 'v \<Rightarrow>
   'v list \<Rightarrow> (error + 'v) option" where
  "mcv_loop_store h self assignment min_num_consistent_val var_mcv [] = Some (Inr var_mcv)"
| "mcv_loop_store h self assignment min_num_consistent_val var_mcv (var # rest) =
     (if \<not> contains assignment var then
        (case num_consistent_val_store h self assignment var of
           None \<Rightarrow> None
         | Some (Inl e) \<Rightarrow> Some (Inl e)
         | Some (Inr n) \<Rightarrow>
             if enat n < min_num_consistent_val
             then mcv_loop_store h self assignment (enat n) var rest
             else mcv_loop_store h self assignment min_num_consistent_val var_mcv rest)
      else mcv_loop_store h self assignment min_num_consistent_val var_mcv rest)"

definition get_unassigned_variable_store ::
  "('v, 'a) store \<Rightarrow> ('v, 'a) BacktrackingSearch_ref \<Rightarrow> ('v, 'a) assignment \<Rightarrow>
   (error + 'v option) option" where
  "get_unassigned_variable_store h self assignment =
     (if \<not> mcv self then Some (Inr (first_unassigned assignment (variables (csp self))))
      else
        (case variables (csp self) of
           [] \<Rightarrow> Some (Inl IndexError)
         | v0 # _ \<Rightarrow>
             (case mcv_loop_store h self assignment \<infinity> v0 (variables (csp self)) of
                None \<Rightarrow> None
              | Some (Inl e) \<Rightarrow> Some (Inl e)
              | Some (Inr v) \<Rightarrow> Some (Inr (Some v)))))"

subsection \<open>\<^verbatim>\<open>arc_consistency_check\<close> on the store\<close>

text \<open>
  The loop of lines 233 to 255. \<open>d\<close> is the reference held by \<^verbatim>\<open>self.domains\<close> and
  \<open>neighbor_domain\<close> the reference to the list created at line 231. Line 249 appends to
  that list in place; line 254 makes the entry of \<open>neighbor_var\<close> refer to it. The
  values iterated are those of the list that the entry referred to when the loop
  started; that list is a different object from the one appended to.
\<close>

fun neighbor_val_loop_store ::
  "('v, 'a, 'd) CSP \<Rightarrow> nat \<Rightarrow> 'v \<Rightarrow> 'v \<Rightarrow> nat \<Rightarrow> 'a list \<Rightarrow>
   ('v, 'a) store \<times> bool \<times> 'v list \<Rightarrow>
   (error + ('v, 'a) store \<times> bool \<times> 'v list) option" where
  "neighbor_val_loop_store c d current_var neighbor_var neighbor_domain [] st = Some (Inr st)"
| "neighbor_val_loop_store c d current_var neighbor_var neighbor_domain (neighbor_val # rest)
     (h, domain_change, queue) =
     (case domain_at h d current_var of
        None \<Rightarrow> None
      | Some (Inl e) \<Rightarrow> Some (Inl e)
      | Some (Inr current_domain) \<Rightarrow>
     (case current_val_loop c current_var neighbor_var neighbor_val current_domain of
        Inl e \<Rightarrow> Some (Inl e)
      | Inr binary_change \<Rightarrow>
     (case uniary_change c neighbor_var neighbor_val of
        Inl e \<Rightarrow> Some (Inl e)
      | Inr unary_ok \<Rightarrow>
          if unary_ok \<and> binary_change then
            (case list_append h neighbor_domain neighbor_val of
               None \<Rightarrow> None
             | Some h1 \<Rightarrow>
                 if domain_change then
                   (case dict_setitem h1 d neighbor_var neighbor_domain of
                      None \<Rightarrow> None
                    | Some h2 \<Rightarrow>
                        neighbor_val_loop_store c d current_var neighbor_var neighbor_domain rest
                          (h2, True, queue @ [neighbor_var]))
                 else
                   neighbor_val_loop_store c d current_var neighbor_var neighbor_domain rest
                     (h1, False, queue))
          else
            (case dict_setitem h d neighbor_var neighbor_domain of
               None \<Rightarrow> None
             | Some h1 \<Rightarrow>
                 neighbor_val_loop_store c d current_var neighbor_var neighbor_domain rest
                   (h1, True, queue @ [neighbor_var])))))"

fun neighbor_var_loop_store ::
  "('v, 'a, 'd) CSP \<Rightarrow> nat \<Rightarrow> 'v \<Rightarrow> 'v list \<Rightarrow>
   ('v, 'a) store \<times> 'v list \<times> 'v option \<Rightarrow>
   (error + ('v, 'a) store \<times> 'v list \<times> 'v option) option" where
  "neighbor_var_loop_store c d current_var [] st = Some (Inr st)"
| "neighbor_var_loop_store c d current_var (neighbor_var # rest) (h, queue, bound) =
     (case new_object h (ListObject []) of
        (neighbor_domain, h1) \<Rightarrow>
     (case domain_at h1 d neighbor_var of
        None \<Rightarrow> None
      | Some (Inl e) \<Rightarrow> Some (Inl e)
      | Some (Inr neighbor_values) \<Rightarrow>
     (case neighbor_val_loop_store c d current_var neighbor_var neighbor_domain
             neighbor_values (h1, False, queue) of
        None \<Rightarrow> None
      | Some (Inl e) \<Rightarrow> Some (Inl e)
      | Some (Inr (h2, domain_change, queue')) \<Rightarrow>
          neighbor_var_loop_store c d current_var rest (h2, queue', Some neighbor_var))))"

definition while_body_store ::
  "('v, 'a, 'd) CSP \<Rightarrow> nat \<Rightarrow> 'v \<Rightarrow> ('v, 'a) store \<times> 'v list \<times> 'v option \<Rightarrow>
   (error + (('v, 'a) store + ('v, 'a) store \<times> 'v list \<times> 'v option)) option" where
  "while_body_store c d current_var st =
     (case get_neighbor_vars c current_var of
        Inl e \<Rightarrow> Some (Inl e)
      | Inr neighbors \<Rightarrow>
     (case neighbor_var_loop_store c d current_var neighbors st of
        None \<Rightarrow> None
      | Some (Inl e) \<Rightarrow> Some (Inl e)
      | Some (Inr (h, queue, bound)) \<Rightarrow>
          (case bound of
             None \<Rightarrow> Some (Inl NameError)
           | Some neighbor_var \<Rightarrow>
               (case domain_at h d neighbor_var of
                  None \<Rightarrow> None
                | Some (Inl e) \<Rightarrow> Some (Inl e)
                | Some (Inr xs) \<Rightarrow>
                    if xs = [] then Some (Inr (Inl h))
                    else Some (Inr (Inr (h, queue, bound)))))))"

partial_function (option) ac3_while_store ::
  "('v, 'a, 'd) CSP \<Rightarrow> nat \<Rightarrow> ('v, 'a) store \<times> 'v list \<times> 'v option \<Rightarrow>
   (error + bool \<times> ('v, 'a) store) option" where
  "ac3_while_store c d st =
     (case st of
        (h, [], bound) \<Rightarrow> Some (Inr (True, h))
      | (h, current_var # queue, bound) \<Rightarrow>
          (case while_body_store c d current_var (h, queue, bound) of
             None \<Rightarrow> None
           | Some (Inl e) \<Rightarrow> Some (Inl e)
           | Some (Inr (Inl h')) \<Rightarrow> Some (Inr (False, h'))
           | Some (Inr (Inr st')) \<Rightarrow> ac3_while_store c d st'))"

declare ac3_while_store.simps [code]

definition arc_consistency_check_store ::
  "('v, 'a) store \<Rightarrow> ('v, 'a) BacktrackingSearch_ref \<Rightarrow> 'v \<Rightarrow>
   (error + bool \<times> ('v, 'a) store) option" where
  "arc_consistency_check_store h self var =
     ac3_while_store (csp self) (domains self) (h, [var], None)"

subsection \<open>\<^verbatim>\<open>backtrack\<close> and \<^verbatim>\<open>solve\<close> on the store\<close>

text \<open>
  \<^verbatim>\<open>copy.deepcopy\<close> of a dictionary of lists: a new list object for every list object
  the entries refer to (one per object, however many entries refer to it), and a new
  dictionary object for the entries.
\<close>

fun deepcopy_entries ::
  "('v, 'a) store \<Rightarrow> ('v, nat) dict \<Rightarrow> (nat, nat) dict \<Rightarrow> ('v, nat) dict \<Rightarrow>
   (('v, 'a) store \<times> ('v, nat) dict) option" where
  "deepcopy_entries h [] memo copied = Some (h, copied)"
| "deepcopy_entries h ((k, r) # rest) memo copied =
     (case map_of memo r of
        Some r' \<Rightarrow> deepcopy_entries h rest memo (copied @ [(k, r')])
      | None \<Rightarrow>
          (case list_at h r of
             None \<Rightarrow> None
           | Some xs \<Rightarrow>
               (case new_object h (ListObject xs) of
                  (r', h1) \<Rightarrow>
                    deepcopy_entries h1 rest ((r, r') # memo) (copied @ [(k, r')]))))"

definition deepcopy :: "('v, 'a) store \<Rightarrow> nat \<Rightarrow> (nat \<times> ('v, 'a) store) option" where
  "deepcopy h d =
     (case dict_at h d of
        None \<Rightarrow> None
      | Some entries \<Rightarrow>
          (case deepcopy_entries h entries [] [] of
             None \<Rightarrow> None
           | Some (h1, copied) \<Rightarrow> Some (new_object h1 (DictObject copied))))"

text \<open>
  \<^verbatim>\<open>backtrack\<close> with the store handed through. Line 160 is \<open>deepcopy\<close>, line 161 a
  new one-element list stored under \<open>var\<close> in the dictionary that \<^verbatim>\<open>self.domains\<close>
  refers to, and line 168 makes \<^verbatim>\<open>self.domains\<close> refer to the copy. As above, a loop
  iterates the values its list held when the loop started: the only list ever appended
  to is the one created at line 231, and a loop over it starts only after the loop
  that fills it has ended.
\<close>

fun backtrack_store ::
  "nat \<Rightarrow> ('v, 'a) store \<Rightarrow> ('v, 'a) BacktrackingSearch_ref \<Rightarrow> ('v, 'a) assignment \<Rightarrow>
   (error + ('v, 'a) store \<times> ('v, 'a) BacktrackingSearch_ref \<times> ('v, 'a) assignment) option"
and backtrack_values_store ::
  "nat \<Rightarrow> ('v, 'a) store \<Rightarrow> ('v, 'a) BacktrackingSearch_ref \<Rightarrow> ('v, 'a) assignment \<Rightarrow> 'v \<Rightarrow>
   'a list \<Rightarrow>
   (error + ('v, 'a) store \<times> ('v, 'a) BacktrackingSearch_ref \<times> ('v, 'a) assignment) option"
where
  "backtrack_store 0 h self assignment = None"
| "backtrack_store (Suc depth) h self assignment =
     (if length assignment = vars_num (csp self) then
        (case record_solution (self\<lparr>num_operations := num_operations self + 1\<rparr>) assignment of
           Inl e \<Rightarrow> Some (Inl e)
         | Inr self' \<Rightarrow> Some (Inr (h, self', assignment)))
      else
        (case get_unassigned_variable_store h
                (self\<lparr>num_operations := num_operations self + 1\<rparr>) assignment of
           None \<Rightarrow> None
         | Some (Inl e) \<Rightarrow> Some (Inl e)
         | Some (Inr None) \<Rightarrow> Some (Inl KeyError)
         | Some (Inr (Some var)) \<Rightarrow>
             (case domain_at h (domains self) var of
                None \<Rightarrow> None
              | Some (Inl e) \<Rightarrow> Some (Inl e)
              | Some (Inr ordered_values) \<Rightarrow>
                  backtrack_values_store depth h
                    (self\<lparr>num_operations := num_operations self + 1\<rparr>)
                    assignment var ordered_values)))"
| "backtrack_values_store depth h self assignment var [] = Some (Inr (h, self, assignment))"
| "backtrack_values_store depth h self assignment var (val # rest) =
     (case check_factors self assignment var val of
        Inl e \<Rightarrow> Some (Inl e)
      | Inr False \<Rightarrow> backtrack_values_store depth h self assignment var rest
      | Inr True \<Rightarrow>
          if \<not> ac3 self then
            (case backtrack_store depth h self (AList.update var val assignment) of
               None \<Rightarrow> None
             | Some (Inl e) \<Rightarrow> Some (Inl e)
             | Some (Inr (h1, self1, assignment1)) \<Rightarrow>
                 (case delitem assignment1 var of
                    Inl e \<Rightarrow> Some (Inl e)
                  | Inr assignment2 \<Rightarrow>
                      backtrack_values_store depth h1 self1 assignment2 var rest))
          else
            (case deepcopy h (domains self) of
               None \<Rightarrow> None
             | Some (localCopy, h1) \<Rightarrow>
            (case new_object h1 (ListObject [val]) of
               (singleton, h2) \<Rightarrow>
            (case dict_setitem h2 (domains self) var singleton of
               None \<Rightarrow> None
             | Some h3 \<Rightarrow>
            (case arc_consistency_check_store h3 self var of
               None \<Rightarrow> None
             | Some (Inl e) \<Rightarrow> Some (Inl e)
             | Some (Inr (succeed, h4)) \<Rightarrow>
                 (case (if succeed
                        then backtrack_store depth h4 self (AList.update var val assignment)
                        else Some (Inr (h4, self, AList.update var val assignment))) of
                    None \<Rightarrow> None
                  | Some (Inl e) \<Rightarrow> Some (Inl e)
                  | Some (Inr (h5, self2, assignment2)) \<Rightarrow>
                      (case delitem assignment2 var of
                         Inl e \<Rightarrow> Some (Inl e)
                       | Inr assignment3 \<Rightarrow>
                           backtrack_values_store depth h5
                             (self2\<lparr>domains := localCopy\<rparr>) assignment3 var rest)))))))"

text \<open>
  Line 116: \<^verbatim>\<open>list(self.csp.values[var])\<close> is a new list object with the values of the
  declared one; the dictionary built from them is a new object as well.
\<close>

fun initial_domains_store ::
  "('v, 'a) store \<Rightarrow> nat \<Rightarrow> 'v list \<Rightarrow> ('v, nat) dict \<Rightarrow>
   (error + ('v, 'a) store \<times> ('v, nat) dict) option" where
  "initial_domains_store h declared [] entries = Some (Inr (h, entries))"
| "initial_domains_store h declared (var # rest) entries =
     (case domain_at h declared var of
        None \<Rightarrow> None
      | Some (Inl e) \<Rightarrow> Some (Inl e)
      | Some (Inr vals) \<Rightarrow>
          (case new_object h (ListObject vals) of
             (r, h1) \<Rightarrow>
               initial_domains_store h1 declared rest (AList.update var r entries)))"

definition solve_store ::
  "('v, 'a) store \<Rightarrow> ('v, 'a) CSP_ref \<Rightarrow> bool \<Rightarrow> bool \<Rightarrow>
   (error + ('v, 'a) store \<times> ('v, 'a) BacktrackingSearch_ref) option" where
  "solve_store h c use_mcv use_ac3 =
     (case initial_domains_store h (csp_values c) (variables c) [] of
        None \<Rightarrow> None
      | Some (Inl e) \<Rightarrow> Some (Inl e)
      | Some (Inr (h1, entries)) \<Rightarrow>
          (case new_object h1 (DictObject entries) of
             (d, h2) \<Rightarrow>
               (case backtrack_store (Suc (length (variables c))) h2
                       \<lparr>num_assignments = 0, num_operations = 0,
                        first_assignment_num_operations = 0, all_assignments = [],
                        csp = c, mcv = use_mcv, ac3 = use_ac3, domains = d\<rparr> [] of
                  None \<Rightarrow> None
                | Some (Inl e) \<Rightarrow> Some (Inl e)
                | Some (Inr (h3, self, assignment)) \<Rightarrow> Some (Inr (h3, self)))))"

section \<open>What the methods write to\<close>

text \<open>
  \<open>keeps n h h'\<close>: the store \<open>h'\<close> has every object of \<open>h\<close> and possibly more, and
  its first \<open>n\<close> objects are those of \<open>h\<close>. Each write of the methods goes to an
  object that was created after the first \<open>n\<close>, as long as \<^verbatim>\<open>self.domains\<close> refers to
  such an object.
\<close>

definition keeps :: "nat \<Rightarrow> ('v, 'a) store \<Rightarrow> ('v, 'a) store \<Rightarrow> bool" where
  "keeps n h h' = (length h \<le> length h' \<and> take n h' = take n h)"

lemma keeps_refl: "keeps n h h"
  by (simp add: keeps_def)

lemma keeps_trans: "keeps n h h' \<Longrightarrow> keeps n h' h'' \<Longrightarrow> keeps n h h''"
  by (simp add: keeps_def)

lemma keeps_length: "keeps n h h' \<Longrightarrow> n \<le> length h \<Longrightarrow> n \<le> length h'"
  by (simp add: keeps_def)

lemma new_object_keeps:
  "new_object h obj = (r, h') \<Longrightarrow> n \<le> length h \<Longrightarrow> keeps n h h' \<and> n \<le> r"
  by (auto simp: new_object_def keeps_def)

lemma list_append_keeps:
  "list_append h r x = Some h' \<Longrightarrow> n \<le> r \<Longrightarrow> keeps n h h'"
  by (auto simp: list_append_def keeps_def split: option.splits)

lemma dict_setitem_keeps:
  "dict_setitem h d k r = Some h' \<Longrightarrow> n \<le> d \<Longrightarrow> keeps n h h'"
  by (auto simp: dict_setitem_def keeps_def split: option.splits)

lemma neighbor_val_loop_store_keeps:
  "neighbor_val_loop_store c d cv nv nd vals (h, ch, q) = Some (Inr (h', ch', q')) \<Longrightarrow>
   n \<le> d \<Longrightarrow> n \<le> nd \<Longrightarrow> keeps n h h'"
proof (induction vals arbitrary: h ch q)
  case Nil
  then show ?case by (simp add: keeps_refl)
next
  case (Cons v vals)
  from Cons.prems(1) consider
    (keep_changed) h1 h2 where "list_append h nd v = Some h1" "dict_setitem h1 d nv nd = Some h2"
      "neighbor_val_loop_store c d cv nv nd vals (h2, True, q @ [nv]) = Some (Inr (h', ch', q'))"
  | (keep) h1 where "list_append h nd v = Some h1"
      "neighbor_val_loop_store c d cv nv nd vals (h1, False, q) = Some (Inr (h', ch', q'))"
  | (drop) h1 where "dict_setitem h d nv nd = Some h1"
      "neighbor_val_loop_store c d cv nv nd vals (h1, True, q @ [nv]) = Some (Inr (h', ch', q'))"
    by (auto split: option.splits sum.splits if_splits)
  then show ?case
  proof cases
    case keep_changed
    from list_append_keeps [OF keep_changed(1) Cons.prems(3)]
      dict_setitem_keeps [OF keep_changed(2) Cons.prems(2)]
      Cons.IH [OF keep_changed(3) Cons.prems(2,3)]
    show ?thesis by (blast intro: keeps_trans)
  next
    case keep
    from list_append_keeps [OF keep(1) Cons.prems(3)] Cons.IH [OF keep(2) Cons.prems(2,3)]
    show ?thesis by (blast intro: keeps_trans)
  next
    case drop
    from dict_setitem_keeps [OF drop(1) Cons.prems(2)] Cons.IH [OF drop(2) Cons.prems(2,3)]
    show ?thesis by (blast intro: keeps_trans)
  qed
qed

lemma neighbor_var_loop_store_keeps:
  "neighbor_var_loop_store c d cv ns (h, q, b) = Some (Inr (h', q', b')) \<Longrightarrow>
   n \<le> d \<Longrightarrow> n \<le> length h \<Longrightarrow> keeps n h h'"
proof (induction ns arbitrary: h q b)
  case Nil
  then show ?case by (simp add: keeps_refl)
next
  case (Cons nv ns)
  obtain nd h1 where new: "new_object h (ListObject []) = (nd, h1)"
    by (cases "new_object h (ListObject [] :: ('a, 'b) object)")
  with Cons.prems(1) obtain vals h2 ch q2 where
    vals: "neighbor_val_loop_store c d cv nv nd vals (h1, False, q) = Some (Inr (h2, ch, q2))"
    and rest: "neighbor_var_loop_store c d cv ns (h2, q2, Some nv) = Some (Inr (h', q', b'))"
    by (auto split: option.splits sum.splits)
  from new_object_keeps [OF new Cons.prems(3)] have k1: "keeps n h h1" and nd: "n \<le> nd"
    by auto
  from neighbor_val_loop_store_keeps [OF vals Cons.prems(2) nd] have k2: "keeps n h1 h2" .
  from k1 k2 have k12: "keeps n h h2" by (rule keeps_trans)
  from k12 Cons.prems(3) have "n \<le> length h2" by (rule keeps_length)
  from Cons.IH [OF rest Cons.prems(2) this] k12 show ?case by (blast intro: keeps_trans)
qed

lemma while_body_store_keeps:
  assumes "n \<le> d" "n \<le> length h"
  shows "while_body_store c d cv (h, q, b) = Some (Inr (Inl h')) \<Longrightarrow> keeps n h h'"
    and "while_body_store c d cv (h, q, b) = Some (Inr (Inr (h', q', b'))) \<Longrightarrow> keeps n h h'"
  using assms
  by (auto simp: while_body_store_def split: sum.splits option.splits if_splits
           dest: neighbor_var_loop_store_keeps)

lemma ac3_while_store_keeps_aux:
  fixes c :: "('v, 'a, 'd) CSP"
  assumes "ac3_while_store c d st = Some res"
  shows "n \<le> d \<longrightarrow> n \<le> length (fst st) \<longrightarrow>
         (case res of Inl e \<Rightarrow> True | Inr (succeed, h') \<Rightarrow> keeps n (fst st) h')"
proof (rule ac3_while_store.raw_induct
    [where P = "\<lambda>c d st res. n \<le> d \<longrightarrow> n \<le> length (fst st) \<longrightarrow>
         (case res of Inl e \<Rightarrow> True | Inr (succeed, h') \<Rightarrow> keeps n (fst st) h')"])
  show "ac3_while_store c d st = Some res" by (rule assms)
next
  fix f :: "('v, 'a, 'd) CSP \<Rightarrow> nat \<Rightarrow> ('v, 'a) store \<times> 'v list \<times> 'v option \<Rightarrow>
            (error + bool \<times> ('v, 'a) store) option"
    and c d st res
  assume 1: "\<And>c d st res. f c d st = Some res \<Longrightarrow>
      n \<le> d \<longrightarrow> n \<le> length (fst st) \<longrightarrow>
      (case res of Inl e \<Rightarrow> True | Inr (succeed, h') \<Rightarrow> keeps n (fst st) h')"
    "(case st of (h, [], bound) \<Rightarrow> Some (Inr (True, h))
      | (h, current_var # queue, bound) \<Rightarrow>
          (case while_body_store c d current_var (h, queue, bound) of
             None \<Rightarrow> None | Some (Inl e) \<Rightarrow> Some (Inl e)
           | Some (Inr (Inl h')) \<Rightarrow> Some (Inr (False, h'))
           | Some (Inr (Inr st')) \<Rightarrow> f c d st')) = Some res"
  obtain h q b where st: "st = (h, q, b)" by (cases st)
  show "n \<le> d \<longrightarrow> n \<le> length (fst st) \<longrightarrow>
      (case res of Inl e \<Rightarrow> True | Inr (succeed, h') \<Rightarrow> keeps n (fst st) h')"
  proof (intro impI)
    assume nd: "n \<le> d" and nh: "n \<le> length (fst st)"
    show "case res of Inl e \<Rightarrow> True | Inr (succeed, h') \<Rightarrow> keeps n (fst st) h'"
    proof (cases q)
      case Nil
      with 1(2) st show ?thesis by (auto simp: keeps_refl)
    next
      case (Cons cv q1)
      show ?thesis
      proof (cases "while_body_store c d cv (h, q1, b)")
        case None
        with 1(2) st Cons show ?thesis by simp
      next
        case (Some r)
        show ?thesis
        proof (cases r)
          case (Inl e)
          with 1(2) st Cons Some show ?thesis by auto
        next
          case (Inr r2)
          show ?thesis
          proof (cases r2)
            case (Inl h1)
            with 1(2) nd nh st Cons Some Inr while_body_store_keeps(1) [of n d h c cv q1 b h1]
            show ?thesis by auto
          next
            case next_pass: (Inr st1)
            obtain h1 q2 b2 where st1: "st1 = (h1, q2, b2)" by (cases st1)
            with nd nh st Some Inr next_pass
              while_body_store_keeps(2) [of n d h c cv q1 b h1 q2 b2]
            have k1: "keeps n h h1" by auto
            with nh st have len: "n \<le> length (fst st1)"
              using st1 by (auto dest: keeps_length)
            from 1(2) st Cons Some Inr next_pass have "f c d st1 = Some res" by simp
            from 1(1) [OF this] nd len k1 st st1 show ?thesis
              by (auto split: sum.splits intro: keeps_trans)
          qed
        qed
      qed
    qed
  qed
qed

lemma arc_consistency_check_store_keeps:
  "arc_consistency_check_store h self var = Some (Inr (succeed, h')) \<Longrightarrow>
   n \<le> domains self \<Longrightarrow> n \<le> length h \<Longrightarrow> keeps n h h'"
  using ac3_while_store_keeps_aux [where c = "csp self" and d = "domains self"
      and st = "(h, [var], None)" and res = "Inr (succeed, h')" and n = n]
  by (simp add: arc_consistency_check_store_def)

lemma deepcopy_entries_keeps:
  "deepcopy_entries h entries memo copied = Some (h', copied') \<Longrightarrow> n \<le> length h \<Longrightarrow>
   keeps n h h'"
proof (induction entries arbitrary: h memo copied)
  case Nil
  then show ?case by (simp add: keeps_refl)
next
  case (Cons p entries)
  obtain k r where p: "p = (k, r)" by (cases p)
  show ?case
  proof (cases "map_of memo r")
    case (Some r')
    with Cons p show ?thesis by simp
  next
    case None
    with Cons.prems(1) p obtain xs where xs: "list_at h r = Some xs"
      and rest: "deepcopy_entries (h @ [ListObject xs]) entries ((r, length h) # memo)
                   (copied @ [(k, length h)]) = Some (h', copied')"
      by (auto simp: new_object_def split: option.splits)
    have k1: "keeps n h (h @ [ListObject xs])"
      using Cons.prems(2) by (simp add: keeps_def)
    with Cons.prems(2) have "n \<le> length (h @ [ListObject xs])" by simp
    from Cons.IH [OF rest this] k1 show ?thesis by (blast intro: keeps_trans)
  qed
qed

lemma deepcopy_keeps:
  "deepcopy h d = Some (r, h') \<Longrightarrow> n \<le> length h \<Longrightarrow> keeps n h h' \<and> n \<le> r"
proof -
  assume run: "deepcopy h d = Some (r, h')" and n: "n \<le> length h"
  from run obtain entries h1 copied where
    "deepcopy_entries h entries [] [] = Some (h1, copied)"
    and new: "new_object h1 (DictObject copied) = (r, h')"
    by (auto simp: deepcopy_def split: option.splits)
  from deepcopy_entries_keeps [OF this(1) n] have k1: "keeps n h h1" .
  from k1 n have "n \<le> length h1" by (rule keeps_length)
  from new_object_keeps [OF new this] k1 show ?thesis by (blast intro: keeps_trans)
qed

lemma backtrack_store_Suc_cases:
  assumes "backtrack_store (Suc depth) h self a = Some (Inr (h', self', a'))"
  obtains
    (terminal) "length a = vars_num (csp self)"
      "record_solution (self\<lparr>num_operations := num_operations self + 1\<rparr>) a = Inr self'"
      "a' = a" "h' = h"
  | (branch) var vals where "length a \<noteq> vars_num (csp self)"
      "domain_at h (domains self) var = Some (Inr vals)"
      "backtrack_values_store depth h (self\<lparr>num_operations := num_operations self + 1\<rparr>)
         a var vals = Some (Inr (h', self', a'))"
  using assms by (auto split: if_splits sum.splits option.splits)

lemma backtrack_values_store_Cons_cases:
  assumes "backtrack_values_store depth h self a var (val # rest) = Some (Inr r)"
  obtains
    (skip) "check_factors self a var val = Inr False"
      "backtrack_values_store depth h self a var rest = Some (Inr r)"
  | (plain) h1 self1 a1 a2 where "check_factors self a var val = Inr True" "\<not> ac3 self"
      "backtrack_store depth h self (AList.update var val a) = Some (Inr (h1, self1, a1))"
      "delitem a1 var = Inr a2"
      "backtrack_values_store depth h1 self1 a2 var rest = Some (Inr r)"
  | (pruned) localCopy h1 singleton h2 h3 h4 a2 where
      "check_factors self a var val = Inr True" "ac3 self"
      "deepcopy h (domains self) = Some (localCopy, h1)"
      "new_object h1 (ListObject [val]) = (singleton, h2)"
      "dict_setitem h2 (domains self) var singleton = Some h3"
      "arc_consistency_check_store h3 self var = Some (Inr (False, h4))"
      "delitem (AList.update var val a) var = Inr a2"
      "backtrack_values_store depth h4 (self\<lparr>domains := localCopy\<rparr>) a2 var rest
       = Some (Inr r)"
  | (propagated) localCopy h1 singleton h2 h3 h4 h5 self2 a1 a2 where
      "check_factors self a var val = Inr True" "ac3 self"
      "deepcopy h (domains self) = Some (localCopy, h1)"
      "new_object h1 (ListObject [val]) = (singleton, h2)"
      "dict_setitem h2 (domains self) var singleton = Some h3"
      "arc_consistency_check_store h3 self var = Some (Inr (True, h4))"
      "backtrack_store depth h4 self (AList.update var val a) = Some (Inr (h5, self2, a1))"
      "delitem a1 var = Inr a2"
      "backtrack_values_store depth h5 (self2\<lparr>domains := localCopy\<rparr>) a2 var rest
       = Some (Inr r)"
  using assms
  by (auto split: if_splits sum.splits option.splits bool.splits prod.splits)

lemma record_solution_frame:
  "record_solution self a = Inr self' \<Longrightarrow> domains self' = domains self \<and> csp self' = csp self"
  by (auto simp: record_solution_eq split: sum.splits)

lemma backtrack_store_keeps:
  fixes self :: "('v, 'a) BacktrackingSearch_ref"
  shows "backtrack_store depth h self a = Some (Inr (h', self', a')) \<Longrightarrow>
   n \<le> length h \<Longrightarrow> n \<le> domains self \<Longrightarrow>
   keeps n h h' \<and> n \<le> domains self' \<and> csp self' = csp self"
proof (induction depth arbitrary: h self a h' self' a')
  case 0
  then show ?case by simp
next
  case (Suc depth)
  have loop: "keeps n g (fst r) \<and> n \<le> domains (fst (snd r)) \<and> csp (fst (snd r)) = csp s"
    if "backtrack_values_store depth g s b var vals = Some (Inr r)"
      "n \<le> length g" "n \<le> domains s"
    for g and s :: "('v, 'a) BacktrackingSearch_ref" and b var vals r
    using that
  proof (induction vals arbitrary: g s b)
    case Nil
    then show ?case by (auto simp: keeps_refl)
  next
    case (Cons val rest)
    from Cons.prems(1) show ?case
    proof (cases rule: backtrack_values_store_Cons_cases)
      case skip
      from Cons.IH [OF skip(2) Cons.prems(2,3)] show ?thesis .
    next
      case (plain h1 self1 a1 a2)
      from Suc.IH [OF plain(3) Cons.prems(2,3)]
      have k1: "keeps n g h1" and d1: "n \<le> domains self1" and c1: "csp self1 = csp s"
        by auto
      from k1 Cons.prems(2) have "n \<le> length h1" by (rule keeps_length)
      from Cons.IH [OF plain(5) this d1] k1 c1 show ?thesis
        by (auto intro: keeps_trans)
    next
      case (pruned localCopy h1 singleton h2 h3 h4 a2)
      from deepcopy_keeps [OF pruned(3) Cons.prems(2)]
      have k1: "keeps n g h1" and lc: "n \<le> localCopy" by auto
      from k1 Cons.prems(2) have l1: "n \<le> length h1" by (rule keeps_length)
      from new_object_keeps [OF pruned(4) l1] have k2: "keeps n h1 h2" by simp
      from k2 l1 have l2: "n \<le> length h2" by (rule keeps_length)
      from dict_setitem_keeps [OF pruned(5) Cons.prems(3)] have k3: "keeps n h2 h3" .
      from k3 l2 have l3: "n \<le> length h3" by (rule keeps_length)
      from arc_consistency_check_store_keeps [OF pruned(6) Cons.prems(3) l3]
      have k4: "keeps n h3 h4" .
      from k4 l3 have l4: "n \<le> length h4" by (rule keeps_length)
      from k1 k2 k3 k4 have k: "keeps n g h4" by (blast intro: keeps_trans)
      from Cons.IH [OF pruned(8) l4] lc k show ?thesis
        by (auto intro: keeps_trans)
    next
      case (propagated localCopy h1 singleton h2 h3 h4 h5 self2 a1 a2)
      from deepcopy_keeps [OF propagated(3) Cons.prems(2)]
      have k1: "keeps n g h1" and lc: "n \<le> localCopy" by auto
      from k1 Cons.prems(2) have l1: "n \<le> length h1" by (rule keeps_length)
      from new_object_keeps [OF propagated(4) l1] have k2: "keeps n h1 h2" by simp
      from k2 l1 have l2: "n \<le> length h2" by (rule keeps_length)
      from dict_setitem_keeps [OF propagated(5) Cons.prems(3)] have k3: "keeps n h2 h3" .
      from k3 l2 have l3: "n \<le> length h3" by (rule keeps_length)
      from arc_consistency_check_store_keeps [OF propagated(6) Cons.prems(3) l3]
      have k4: "keeps n h3 h4" .
      from k4 l3 have l4: "n \<le> length h4" by (rule keeps_length)
      from Suc.IH [OF propagated(7) l4 Cons.prems(3)]
      have k5: "keeps n h4 h5" and c2: "csp self2 = csp s" by auto
      from k5 l4 have l5: "n \<le> length h5" by (rule keeps_length)
      from k1 k2 k3 k4 k5 have k: "keeps n g h5" by (blast intro: keeps_trans)
      from Cons.IH [OF propagated(9) l5] lc k c2 show ?thesis
        by (auto intro: keeps_trans)
    qed
  qed
  from Suc.prems(1) show ?case
  proof (cases rule: backtrack_store_Suc_cases)
    case terminal
    with Suc.prems(3) show ?thesis
      by (auto simp: keeps_refl dest: record_solution_frame)
  next
    case (branch var vals)
    from loop [OF branch(3) Suc.prems(2)] Suc.prems(3) show ?thesis by simp
  qed
qed

lemma initial_domains_store_keeps:
  "initial_domains_store h declared vars entries = Some (Inr (h', entries')) \<Longrightarrow>
   n \<le> length h \<Longrightarrow> keeps n h h'"
proof (induction vars arbitrary: h entries)
  case Nil
  then show ?case by (simp add: keeps_refl)
next
  case (Cons v vars)
  from Cons.prems(1) obtain vals where
    rest: "initial_domains_store (h @ [ListObject vals]) declared vars
             (AList.update v (length h) entries) = Some (Inr (h', entries'))"
    by (auto simp: new_object_def split: option.splits sum.splits)
  have k1: "keeps n h (h @ [ListObject vals])"
    using Cons.prems(2) by (simp add: keeps_def)
  from Cons.prems(2) have "n \<le> length (h @ [ListObject vals])" by simp
  from Cons.IH [OF rest this] k1 show ?case by (blast intro: keeps_trans)
qed

section \<open>Concrete problems\<close>

text \<open>The problem with no variables at all.\<close>

definition empty_csp :: "(nat, int) CSP_val" where
  "empty_csp = \<lparr>vars_num = 0, variables = [], csp_values = [], unary_factors = [],
                binary_factors = []\<rparr>"

text \<open>
  Two variables \<open>0\<close> and \<open>1\<close> with the values \<open>0\<close> and \<open>1\<close> each and the
  constraint that they differ, registered in both directions. \<open>two_start\<close> is the
  object as \<^verbatim>\<open>solve\<close> hands it to the first call of \<^verbatim>\<open>backtrack\<close>, \<open>two_result\<close>
  the object after the search. \<open>clash_csp\<close> has one value per variable and the same
  constraint, so it has no solution.
\<close>

definition two_csp :: "(nat, nat) CSP_val" where
  "two_csp =
     \<lparr>vars_num = 2, variables = [0, 1],
      csp_values = [(0, [0, 1]), (1, [0, 1])],
      unary_factors = [(0, None), (1, None)],
      binary_factors =
        [(0, [(1, [(0, [(0, 0), (1, 1)]), (1, [(0, 1), (1, 0)])])]),
         (1, [(0, [(0, [(0, 0), (1, 1)]), (1, [(0, 1), (1, 0)])])])]\<rparr>"

definition two_start :: "bool \<Rightarrow> bool \<Rightarrow> (nat, nat) BacktrackingSearch_val" where
  "two_start use_mcv use_ac3 =
     \<lparr>num_assignments = 0, num_operations = 0, first_assignment_num_operations = 0,
      all_assignments = [], csp = two_csp, mcv = use_mcv, ac3 = use_ac3,
      domains = [(0, [0, 1]), (1, [0, 1])]\<rparr>"

definition two_result :: "bool \<Rightarrow> bool \<Rightarrow> (nat, nat) BacktrackingSearch_val" where
  "two_result use_mcv use_ac3 =
     \<lparr>num_assignments = 2, num_operations = 5, first_assignment_num_operations = 3,
      all_assignments = [[(0, 0), (1, 1)], [(0, 1), (1, 0)]],
      csp = two_csp, mcv = use_mcv, ac3 = use_ac3,
      domains = [(0, [0, 1]), (1, [0, 1])]\<rparr>"






text \<open>
  \<open>picky_start\<close> is \<open>two_start\<close> with a unary factor on variable \<open>0\<close> that forbids the
  value \<open>0\<close>. \<open>uneven_csp\<close> has three unconstrained variables with two, one and one
  values.
\<close>

definition picky_start :: "(nat, nat) BacktrackingSearch_val" where
  "picky_start =
     (two_start False False)
       \<lparr>csp := two_csp\<lparr>unary_factors := [(0, Some [(0, 0), (1, 1)]), (1, None)]\<rparr>\<rparr>"

definition uneven_csp :: "(nat, nat) CSP_val" where
  "uneven_csp =
     \<lparr>vars_num = 3, variables = [0, 1, 2],
      csp_values = [(0, [0, 1]), (1, [0]), (2, [0])],
      unary_factors = [(0, None), (1, None), (2, None)],
      binary_factors = [(0, []), (1, []), (2, [])]\<rparr>"

definition uneven_start :: "bool \<Rightarrow> (nat, nat) BacktrackingSearch_val" where
  "uneven_start use_mcv =
     \<lparr>num_assignments = 0, num_operations = 1, first_assignment_num_operations = 0,
      all_assignments = [], csp = uneven_csp, mcv = use_mcv, ac3 = False,
      domains = [(0, [0, 1]), (1, [0]), (2, [0])]\<rparr>"

text \<open>
  \<open>selective_csp\<close> has three variables. Variable \<open>1\<close> has two values and no factor.
  Variable \<open>2\<close> has three values, a unary factor that forbids its value \<open>0\<close>, and a
  binary factor with variable \<open>0\<close>, registered in both directions, that forbids its
  value \<open>1\<close> when variable \<open>0\<close> has the value \<open>0\<close>. \<open>selective_start\<close> is the search
  object with \<^verbatim>\<open>mcv\<close> set after the first call of \<^verbatim>\<open>backtrack\<close> has bound variable
  \<open>0\<close>.
\<close>

definition selective_csp :: "(nat, nat) CSP_val" where
  "selective_csp =
     \<lparr>vars_num = 3, variables = [0, 1, 2],
      csp_values = [(0, [0, 1]), (1, [0, 1]), (2, [0, 1, 2])],
      unary_factors = [(0, None), (1, None), (2, Some [(0, 0), (1, 1), (2, 1)])],
      binary_factors =
        [(0, [(2, [(0, [(0, 1), (1, 0), (2, 1)]), (1, [(0, 1), (1, 1), (2, 1)])])]),
         (1, []),
         (2, [(0, [(0, [(0, 1), (1, 1)]), (1, [(0, 0), (1, 1)]), (2, [(0, 1), (1, 1)])])])]\<rparr>"

definition selective_start :: "(nat, nat) BacktrackingSearch_val" where
  "selective_start =
     \<lparr>num_assignments = 0, num_operations = 2, first_assignment_num_operations = 0,
      all_assignments = [], csp = selective_csp, mcv = True, ac3 = False,
      domains = [(0, [0, 1]), (1, [0, 1]), (2, [0, 1, 2])]\<rparr>"

text \<open>
  \<open>single_csp\<close> is one variable with two values and no factor. \<open>stray_csp\<close> is
  \<open>two_csp\<close> with a third variable that has one value and no factor. In \<open>fork_csp\<close>
  variable \<open>0\<close> has the neighbours \<open>1\<close> and \<open>2\<close>, in this order; every variable has
  the single value \<open>0\<close>; the factor between \<open>0\<close> and \<open>1\<close> forbids the pair of values
  and the factor between \<open>0\<close> and \<open>2\<close> allows it; both are registered in both
  directions. \<open>lopsided_start\<close> has the same problem with the factors of variable \<open>1\<close>
  left out.
\<close>

definition single_csp :: "(nat, nat) CSP_val" where
  "single_csp =
     \<lparr>vars_num = 1, variables = [0], csp_values = [(0, [0, 1])],
      unary_factors = [(0, None)], binary_factors = [(0, [])]\<rparr>"

definition fork_csp :: "(nat, nat) CSP_val" where
  "fork_csp =
     \<lparr>vars_num = 3, variables = [0, 1, 2],
      csp_values = [(0, [0]), (1, [0]), (2, [0])],
      unary_factors = [(0, None), (1, None), (2, None)],
      binary_factors =
        [(0, [(1, [(0, [(0, 0)])]), (2, [(0, [(0, 1)])])]),
         (1, [(0, [(0, [(0, 0)])])]),
         (2, [(0, [(0, [(0, 1)])])])]\<rparr>"

definition fork_start :: "(nat, nat) BacktrackingSearch_val" where
  "fork_start =
     \<lparr>num_assignments = 0, num_operations = 1, first_assignment_num_operations = 0,
      all_assignments = [], csp = fork_csp, mcv = False, ac3 = True,
      domains = [(0, [0]), (1, [0]), (2, [0])]\<rparr>"

definition lopsided_start :: "(nat, nat) BacktrackingSearch_val" where
  "lopsided_start =
     fork_start\<lparr>csp := fork_csp\<lparr>binary_factors :=
        [(0, [(1, [(0, [(0, 0)])]), (2, [(0, [(0, 1)])])]),
         (1, []),
         (2, [(0, [(0, [(0, 1)])])])]\<rparr>\<rparr>"










definition short_csp :: "(nat, nat) CSP_val" where
  "short_csp =
     \<lparr>vars_num = 0, variables = [0], csp_values = [(0, [0])],
      unary_factors = [(0, None)], binary_factors = [(0, [])]\<rparr>"

definition short_root :: "(nat, nat) BacktrackingSearch_val" where
  "short_root =
     \<lparr>num_assignments = 0, num_operations = 0, first_assignment_num_operations = 0,
      all_assignments = [], csp = short_csp, mcv = False, ac3 = False,
      domains = [(0, [0])]\<rparr>"

definition short_counted :: "(nat, nat) BacktrackingSearch_val" where
  "short_counted = short_root\<lparr>num_assignments := 1, num_operations := 1\<rparr>"

definition two_counted :: "(nat, nat) BacktrackingSearch_val" where
  "two_counted = (two_start False False)\<lparr>num_assignments := 1, num_operations := 3\<rparr>"

definition two_appended :: "(nat, nat) BacktrackingSearch_val" where
  "two_appended = two_counted\<lparr>all_assignments := [[(0, 0), (1, 1)]]\<rparr>"

definition two_first :: "(nat, nat) BacktrackingSearch_val" where
  "two_first = (two_start False False)\<lparr>num_operations := 1\<rparr>"

definition two_second :: "(nat, nat) BacktrackingSearch_val" where
  "two_second = (two_start False False)\<lparr>num_operations := 2\<rparr>"

text \<open>
  \<open>two_csp\<close> in a store: object \<open>0\<close> is the dictionary \<^verbatim>\<open>csp.values\<close>, objects
  \<open>1\<close> and \<open>2\<close> are the two declared lists. \<open>two_store_after\<close> is the store after
  a search with \<^verbatim>\<open>ac3\<close>.
\<close>

definition two_store :: "(nat, nat) store" where
  "two_store = [DictObject [(0, 1), (1, 2)], ListObject [0, 1], ListObject [0, 1]]"

definition two_csp_ref :: "(nat, nat) CSP_ref" where
  "two_csp_ref =
     \<lparr>vars_num = 2, variables = [0, 1], csp_values = 0,
      unary_factors = [(0, None), (1, None)],
      binary_factors =
        [(0, [(1, [(0, [(0, 0), (1, 1)]), (1, [(0, 1), (1, 0)])])]),
         (1, [(0, [(0, [(0, 0), (1, 1)]), (1, [(0, 1), (1, 0)])])])]\<rparr>"

definition two_store_after :: "(nat, nat) store" where
  "two_store_after =
     [DictObject [(0, 1), (1, 2)], ListObject [0, 1], ListObject [0, 1],
      ListObject [0, 1], ListObject [0, 1], DictObject [(0, 9), (1, 16)],
      ListObject [0, 1], ListObject [0, 1],
      DictObject [(0, 21), (1, 27)], ListObject [0], ListObject [1],
      ListObject [0], ListObject [0], ListObject [0], ListObject [1],
      DictObject [(0, 13), (1, 14)], ListObject [1], ListObject [0],
      ListObject [0, 1], ListObject [0, 1],
      DictObject [(0, 18), (1, 19)], ListObject [1], ListObject [0],
      ListObject [1], ListObject [1], ListObject [0],
      DictObject [(0, 24), (1, 25)], ListObject [0], ListObject [1]]"

definition two_result_ref :: "(nat, nat) BacktrackingSearch_ref" where
  "two_result_ref =
     \<lparr>num_assignments = 2, num_operations = 5, first_assignment_num_operations = 3,
      all_assignments = [[(0, 0), (1, 1)], [(0, 1), (1, 0)]],
      csp = two_csp_ref, mcv = False, ac3 = True, domains = 20\<rparr>"

lemma solve_store_two:
  "solve_store two_store two_csp_ref False True = Some (Inr (two_store_after, two_result_ref))"
  by code_simp

lemma solve_two_csp: "solve two_csp use_mcv use_ac3 = Some (Inr (two_result use_mcv use_ac3))"
  by (induct use_mcv; induct use_ac3; code_simp)

lemma backtrack_two_csp:
  "backtrack 3 (two_start use_mcv use_ac3) [] = Some (Inr (two_result use_mcv use_ac3, []))"
  by (induct use_mcv; induct use_ac3; code_simp)






lemma reaches_two:
  "reaches (Call (Suc 2) (two_start False False) []) (Call (Suc 0) two_second [(0, 0), (1, 1)])"
proof -
  let ?R = "Call (Suc 2) (two_start False False) [] :: (nat, nat) place"
  let ?s0 = "two_start False False"
  have r0: "reaches ?R (Call (Suc 2) ?s0 [])" by (rule reaches.start)
  have a1: "length ([] :: (nat \<times> nat) list) \<noteq> vars_num (csp ?s0)" by code_simp
  have a2: "get_unassigned_variable (?s0\<lparr>num_operations := num_operations ?s0 + 1\<rparr>) []
      = Inr (Some 0)" by code_simp
  have a3: "getitem (domains ?s0) 0 = Inr [0, 1]" by code_simp
  have a4: "?s0\<lparr>num_operations := num_operations ?s0 + 1\<rparr> = two_first" by code_simp
  from reaches.select [OF r0 a1 a2 a3] a4
  have r1: "reaches ?R (Loop 2 two_first [] 0 [0, 1])" by simp
  have b1: "check_factors two_first [] 0 0 = Inr True" by code_simp
  have b2: "\<not> ac3 two_first" by code_simp
  from reaches.descend [OF r1 b1 b2]
  have r2: "reaches ?R (Call (Suc 1) two_first [(0, 0)])" by (simp add: numeral_2_eq_2)
  have c1: "length [(0 :: nat, 0 :: nat)] \<noteq> vars_num (csp two_first)" by code_simp
  have c2: "get_unassigned_variable
      (two_first\<lparr>num_operations := num_operations two_first + 1\<rparr>) [(0, 0)]
      = Inr (Some 1)" by code_simp
  have c3: "getitem (domains two_first) 1 = Inr [0, 1]" by code_simp
  have c4: "two_first\<lparr>num_operations := num_operations two_first + 1\<rparr> = two_second"
    by code_simp
  from reaches.select [OF r2 c1 c2 c3] c4
  have r3: "reaches ?R (Loop 1 two_second [(0, 0)] 1 [0, 1])" by simp
  have d1: "check_factors two_second [(0, 0)] 1 0 = Inr False" by code_simp
  from reaches.skip [OF r3 d1]
  have r4: "reaches ?R (Loop 1 two_second [(0, 0)] 1 [1])" .
  have e1: "check_factors two_second [(0, 0)] 1 1 = Inr True" by code_simp
  have e2: "\<not> ac3 two_second" by code_simp
  from reaches.descend [OF r4 e1 e2]
  show ?thesis by simp
qed

lemma visits_two:
  "visits (Call (Suc 2) (two_start False False) []) 134 two_counted \<and>
   visits (Call (Suc 2) (two_start False False) []) 138 two_appended"
proof -
  have l: "length [(0 :: nat, 0 :: nat), (1, 1)] = vars_num (csp two_second)" by code_simp
  have c: "copy_assignment [(0 :: nat, 0 :: nat), (1, 1)] (variables (csp two_second)) []
      = Inr [(0, 0), (1, 1)]" by code_simp
  have e1: "count_solution (two_second\<lparr>num_operations := num_operations two_second + 1\<rparr>)
      = two_counted"
    by code_simp
  have e2: "append_solution
      (count_solution (two_second\<lparr>num_operations := num_operations two_second + 1\<rparr>))
      [(0, 0), (1, 1)] = two_appended"
    by code_simp
  from visits.line_134 [OF reaches_two l] visits.line_138 [OF reaches_two l c] e1 e2
  show ?thesis by simp
qed

lemma visits_short: "visits (Call (Suc 1) short_root []) 134 short_counted"
proof -
  have r: "reaches (Call (Suc 1) short_root []) (Call (Suc 1) short_root [])"
    by (rule reaches.start)
  have l: "length ([] :: (nat \<times> nat) list) = vars_num (csp short_root)" by code_simp
  have e: "count_solution (short_root\<lparr>num_operations := num_operations short_root + 1\<rparr>)
      = short_counted" by code_simp
  from visits.line_134 [OF r l] e show ?thesis by simp
qed

section \<open>Properties\<close>

text \<open>
  C9. On a CSP with zero variables \<^verbatim>\<open>solve\<close> returns after exactly one call of
  \<^verbatim>\<open>backtrack\<close>, having recorded exactly one solution, the empty assignment:
  \<^verbatim>\<open>num_operations == 1\<close>, \<^verbatim>\<open>num_assignments == 1\<close> and
  \<^verbatim>\<open>all_assignments == [{}]\<close>, whatever the two flags are.
\<close>

theorem solve_zero_variables:
  "variables c = [] \<Longrightarrow> vars_num c = 0 \<Longrightarrow>
   solve c use_mcv use_ac3 =
     Some (Inr \<lparr>num_assignments = 1, num_operations = 1,
                first_assignment_num_operations = 1, all_assignments = [[]],
                csp = c, mcv = use_mcv, ac3 = use_ac3, domains = []\<rparr>)"
  by (simp add: solve_def record_solution_eq)

theorem solve_zero_variables_witness:
  "variables empty_csp = [] \<and> vars_num empty_csp = 0 \<and>
   solve empty_csp True True =
     Some (Inr \<lparr>num_assignments = 1, num_operations = 1,
                first_assignment_num_operations = 1, all_assignments = [[]],
                csp = empty_csp, mcv = True, ac3 = True, domains = []\<rparr>)"
  using solve_zero_variables [of empty_csp True True] by (simp add: empty_csp_def)

text \<open>
  C6. \<^verbatim>\<open>num_assignments\<close> equals the length of \<^verbatim>\<open>all_assignments\<close> when \<^verbatim>\<open>solve\<close>
  has returned, and every call of \<^verbatim>\<open>backtrack\<close> that starts with the two equal returns
  with the two equal. In a search that starts with the two equal, as the search of
  \<^verbatim>\<open>solve\<close> does, they are equal at the start of every call and of every loop
  iteration that the search reaches, and after every line of \<^verbatim>\<open>backtrack\<close> that writes
  to the object, except after line 134: from the increment of line 134 to the append of
  line 138 \<^verbatim>\<open>num_assignments\<close> is the length plus one.
\<close>

theorem num_assignments_is_length:
  fixes c :: "('v, 'a) CSP_val" and self s0 :: "('v, 'a) BacktrackingSearch_val"
  shows
  "(solve c use_mcv use_ac3 = Some (Inr s) \<longrightarrow>
      num_assignments s = length (all_assignments s)) \<and>
   (backtrack depth self a = Some (Inr (self', a')) \<longrightarrow>
      num_assignments self = length (all_assignments self) \<longrightarrow>
      num_assignments self' = length (all_assignments self')) \<and>
   (reaches (Call d0 s0 a0) q \<longrightarrow>
      num_assignments s0 = length (all_assignments s0) \<longrightarrow>
      num_assignments (object_at q) = length (all_assignments (object_at q))) \<and>
   (visits (Call d0 s0 a0) l s1 \<longrightarrow>
      num_assignments s0 = length (all_assignments s0) \<longrightarrow>
      (if l = 134 then num_assignments s1 = length (all_assignments s1) + 1
       else num_assignments s1 = length (all_assignments s1))) \<and>
   (visits
      (Call (Suc (length (variables c)))
         \<lparr>num_assignments = 0, num_operations = 0, first_assignment_num_operations = 0,
          all_assignments = [], csp = c, mcv = use_mcv, ac3 = use_ac3, domains = doms\<rparr> [])
      k s2 \<longrightarrow>
      (if k = 134 then num_assignments s2 = length (all_assignments s2) + 1
       else num_assignments s2 = length (all_assignments s2)))"
proof -
  have points: "if l = 134 then num_assignments s1 = length (all_assignments s1) + 1
       else num_assignments s1 = length (all_assignments s1)"
    if v: "visits (Call d0 s0 a0) l s1"
      and eq: "num_assignments s0 = length (all_assignments s0)"
    for d0 a0 l and s0 s1 :: "('v, 'a) BacktrackingSearch_val"
  proof -
    have at: "num_assignments (object_at q) = length (all_assignments (object_at q))"
      if "reaches (Call d0 s0 a0) q" for q
      using reaches_keeps_count [OF that] eq by simp
    from v show ?thesis
    proof (cases rule: visits.cases)
      case (line_130 depth self a)
      with at [OF line_130(3)] show ?thesis by simp
    next
      case (line_134 depth self a)
      with at [OF line_134(3)] show ?thesis by (simp add: count_solution_def)
    next
      case (line_138 depth self a new_assignment)
      with at [OF line_138(3)] show ?thesis
        by (simp add: count_solution_def append_solution_def)
    next
      case (line_140 depth self a new_assignment)
      with at [OF line_140(3)] show ?thesis
        by (simp add: count_solution_def append_solution_def note_first_assignment_def)
    next
      case (line_161 depth self a var val rest)
      with at [OF line_161(3)] show ?thesis by simp
    next
      case (line_163 depth self a var val rest succeed)
      from arc_consistency_check_writes_domains [OF line_163(5)]
      obtain d where "s1 = self\<lparr>domains := d\<rparr>" by auto
      with line_163(1) at [OF line_163(2)] show ?thesis by simp
    next
      case (line_168 depth self a var val rest succeed self1 self2 a2)
      from arc_consistency_check_writes_domains [OF line_168(6)]
      obtain d where d: "self1 = self\<lparr>domains := d\<rparr>" by auto
      with at [OF line_168(3)]
      have 1: "num_assignments self1 = length (all_assignments self1)" by simp
      have "num_assignments self2 = length (all_assignments self2)"
      proof (cases succeed)
        case True
        with line_168(7)
        have "backtrack depth self1 (AList.update var val a) = Some (Inr (self2, a2))" by simp
        from backtrack_keeps_count [OF this] 1 show ?thesis by simp
      next
        case False
        with line_168(7) 1 show ?thesis by simp
      qed
      with line_168(1,2) show ?thesis by simp
    qed
  qed
  show ?thesis
  proof (intro conjI impI)
    assume "solve c use_mcv use_ac3 = Some (Inr s)"
    then show "num_assignments s = length (all_assignments s)"
      by (elim solve_cases) (use backtrack_keeps_count in fastforce)
  next
    assume "backtrack depth self a = Some (Inr (self', a'))"
      and "num_assignments self = length (all_assignments self)"
    then show "num_assignments self' = length (all_assignments self')"
      using backtrack_keeps_count by blast
  next
    assume "reaches (Call d0 s0 a0) q"
      and "num_assignments s0 = length (all_assignments s0)"
    then show "num_assignments (object_at q) = length (all_assignments (object_at q))"
      using reaches_keeps_count by fastforce
  next
    assume "visits (Call d0 s0 a0) l s1"
      and "num_assignments s0 = length (all_assignments s0)"
    then show "if l = 134 then num_assignments s1 = length (all_assignments s1) + 1
       else num_assignments s1 = length (all_assignments s1)"
      by (rule points)
  next
    assume "visits
      (Call (Suc (length (variables c)))
         \<lparr>num_assignments = 0, num_operations = 0, first_assignment_num_operations = 0,
          all_assignments = [], csp = c, mcv = use_mcv, ac3 = use_ac3, domains = doms\<rparr> [])
      k s2"
    then show "if k = 134 then num_assignments s2 = length (all_assignments s2) + 1
       else num_assignments s2 = length (all_assignments s2)"
      by (rule points) simp
  qed
qed

theorem num_assignments_is_length_witness:
  "solve two_csp False True = Some (Inr (two_result False True)) \<and>
   num_assignments (two_result False True) = length (all_assignments (two_result False True)) \<and>
   backtrack 3 (two_start True False) [] = Some (Inr (two_result True False, [])) \<and>
   num_assignments (two_start True False) = length (all_assignments (two_start True False)) \<and>
   num_assignments (two_result True False) = length (all_assignments (two_result True False)) \<and>
   num_assignments (two_start False False) = length (all_assignments (two_start False False)) \<and>
   reaches (Call (Suc 2) (two_start False False) [])
     (Call (Suc 0) two_second [(0, 0), (1, 1)]) \<and>
   num_assignments two_second = length (all_assignments two_second) \<and>
   visits (Call (Suc 2) (two_start False False) []) 134 two_counted \<and>
   num_assignments two_counted = length (all_assignments two_counted) + 1 \<and>
   visits (Call (Suc 2) (two_start False False) []) 138 two_appended \<and>
   num_assignments two_appended = length (all_assignments two_appended)"
proof -
  have s: "num_assignments (two_start False False)
      = length (all_assignments (two_start False False))" by code_simp
  have t: "num_assignments (two_start True False)
      = length (all_assignments (two_start True False))" by code_simp
  have n: "length (variables two_csp) = 2" by code_simp
  have r: "\<lparr>num_assignments = 0, num_operations = 0, first_assignment_num_operations = 0,
          all_assignments = [], csp = two_csp, mcv = False, ac3 = False,
          domains = [(0, [0, 1]), (1, [0, 1])]\<rparr> = two_start False False" by code_simp
  note v = visits_two
  from num_assignments_is_length [where c = two_csp and use_mcv = False and ?use_ac3.0 = True
      and s = "two_result False True"] solve_two_csp [of False True]
  have c1: "num_assignments (two_result False True)
      = length (all_assignments (two_result False True))" by blast
  from num_assignments_is_length [where depth = 3 and self = "two_start True False" and a = "[]"
      and self' = "two_result True False" and a' = "[]"] backtrack_two_csp [of True False] t
  have c2: "num_assignments (two_result True False)
      = length (all_assignments (two_result True False))" by blast
  from num_assignments_is_length [where ?d0.0 = "Suc 2" and ?s0.0 = "two_start False False"
      and ?a0.0 = "[]" and q = "Call (Suc 0) two_second [(0, 0), (1, 1)]"] reaches_two s
  have c3: "num_assignments two_second = length (all_assignments two_second)" by simp
  from num_assignments_is_length [where ?d0.0 = "Suc 2" and ?s0.0 = "two_start False False"
      and ?a0.0 = "[]" and l = 134 and ?s1.0 = two_counted] v s
  have c4: "num_assignments two_counted = length (all_assignments two_counted) + 1" by simp
  from num_assignments_is_length [where c = two_csp and use_mcv = False and ?use_ac3.0 = False
      and doms = "[(0, [0, 1]), (1, [0, 1])]" and k = 138 and ?s2.0 = two_appended] v n r
  have c5: "num_assignments two_appended = length (all_assignments two_appended)" by simp
  from solve_two_csp [of False True] backtrack_two_csp [of True False] s t v reaches_two
    c1 c2 c3 c4 c5
  show ?thesis by simp
qed

text \<open>
  C6 at every point of the search: in the search of \<^verbatim>\<open>solve\<close> on \<open>two_csp\<close>, which
  returns, the object is in the state \<open>two_counted\<close> after line 134 of the call that
  records the first solution. There \<^verbatim>\<open>num_assignments\<close> is \<open>1\<close> and
  \<^verbatim>\<open>all_assignments\<close> is still empty, so the two differ. On \<open>short_csp\<close> the copy loop
  of lines 136 and 137 raises \<^verbatim>\<open>KeyError\<close> right after line 134 of the first call, and
  \<^verbatim>\<open>solve\<close> ends with that exception.
\<close>

theorem num_assignments_ahead_of_length:
  "initial_domains (csp_values two_csp) (variables two_csp) []
     = Inr [(0, [0, 1]), (1, [0, 1])] \<and>
   solve two_csp False False = Some (Inr (two_result False False)) \<and>
   visits
     (Call (Suc (length (variables two_csp)))
        \<lparr>num_assignments = 0, num_operations = 0, first_assignment_num_operations = 0,
         all_assignments = [], csp = two_csp, mcv = False, ac3 = False,
         domains = [(0, [0, 1]), (1, [0, 1])]\<rparr> [])
     134 two_counted \<and>
   num_assignments two_counted = 1 \<and>
   all_assignments two_counted = [] \<and>
   num_assignments two_counted \<noteq> length (all_assignments two_counted) \<and>
   initial_domains (csp_values short_csp) (variables short_csp) [] = Inr [(0, [0])] \<and>
   solve short_csp False False = Some (Inl KeyError) \<and>
   visits
     (Call (Suc (length (variables short_csp)))
        \<lparr>num_assignments = 0, num_operations = 0, first_assignment_num_operations = 0,
         all_assignments = [], csp = short_csp, mcv = False, ac3 = False,
         domains = [(0, [0])]\<rparr> [])
     134 short_counted \<and>
   copy_assignment ([] :: (nat \<times> nat) list) (variables short_csp) [] = Inl KeyError \<and>
   num_assignments short_counted = 1 \<and>
   all_assignments short_counted = [] \<and>
   num_assignments short_counted \<noteq> length (all_assignments short_counted)"
proof -
  have d: "initial_domains (csp_values two_csp) (variables two_csp) []
     = Inr [(0, [0, 1]), (1, [0, 1])]" by code_simp
  have n: "length (variables two_csp) = 2" by code_simp
  have r: "\<lparr>num_assignments = 0, num_operations = 0, first_assignment_num_operations = 0,
          all_assignments = [], csp = two_csp, mcv = False, ac3 = False,
          domains = [(0, [0, 1]), (1, [0, 1])]\<rparr> = two_start False False" by code_simp
  have 1: "num_assignments two_counted = 1" by code_simp
  have 2: "all_assignments two_counted = []" by code_simp
  have d': "initial_domains (csp_values short_csp) (variables short_csp) [] = Inr [(0, [0])]"
    by code_simp
  have n': "length (variables short_csp) = 1" by code_simp
  have r': "\<lparr>num_assignments = 0, num_operations = 0, first_assignment_num_operations = 0,
          all_assignments = [], csp = short_csp, mcv = False, ac3 = False,
          domains = [(0, [0])]\<rparr> = short_root" by code_simp
  have s': "solve short_csp False False = Some (Inl KeyError)" by code_simp
  have c': "copy_assignment ([] :: (nat \<times> nat) list) (variables short_csp) [] = Inl KeyError"
    by code_simp
  have 3: "num_assignments short_counted = 1" by code_simp
  have 4: "all_assignments short_counted = []" by code_simp
  from d n r solve_two_csp [of False False] visits_two 1 2 d' n' r' s' c' visits_short 3 4
  show ?thesis by simp
qed



text \<open>
  C8. With lists and dictionaries as objects in a store: when \<^verbatim>\<open>solve\<close> has returned,
  every object that existed when it was called is what it was, among them the
  dictionary \<^verbatim>\<open>csp.values\<close> and the lists of declared values it refers to; the object
  still refers to the CSP it was given; and \<^verbatim>\<open>self.domains\<close> refers to an object
  created during the call. This holds for both settings of both flags.
\<close>

theorem solve_store_keeps_objects:
  fixes c :: "('v, 'a) CSP_ref"
  shows "solve_store h c use_mcv use_ac3 = Some (Inr (h', self)) \<longrightarrow>
     take (length h) h' = h \<and> (\<forall>r < length h. h' ! r = h ! r) \<and>
     csp self = c \<and> length h \<le> domains self"
proof
  assume run: "solve_store h c use_mcv use_ac3 = Some (Inr (h', self))"
  then obtain h1 entries a where
    init: "initial_domains_store h (csp_values c) (variables c) [] = Some (Inr (h1, entries))"
    and search: "backtrack_store (Suc (length (variables c))) (h1 @ [DictObject entries])
             \<lparr>num_assignments = 0, num_operations = 0,
              first_assignment_num_operations = 0, all_assignments = [],
              csp = c, mcv = use_mcv, ac3 = use_ac3, domains = length h1\<rparr> []
           = Some (Inr (h', self, a))"
    by (auto simp: solve_store_def new_object_def simp del: backtrack_store.simps
             split: option.splits sum.splits)
  from initial_domains_store_keeps [OF init, of "length h"] have k1: "keeps (length h) h h1"
    by simp
  then have l1: "length h \<le> length h1" by (simp add: keeps_def)
  have k2: "keeps (length h) h1 (h1 @ [DictObject entries])"
    using l1 by (simp add: keeps_def)
  from backtrack_store_keeps [OF search, of "length h"] l1
  have k3: "keeps (length h) (h1 @ [DictObject entries]) h'" and c: "csp self = c"
    and d: "length h \<le> domains self"
    by auto
  from k1 k2 k3 have k: "keeps (length h) h h'" by (blast intro: keeps_trans)
  then have t: "take (length h) h' = h" by (simp add: keeps_def)
  have "h' ! r = h ! r" if "r < length h" for r
  proof -
    from that have "take (length h) h' ! r = h' ! r" by simp
    with t show ?thesis by simp
  qed
  with t c d show "take (length h) h' = h \<and> (\<forall>r < length h. h' ! r = h ! r) \<and>
     csp self = c \<and> length h \<le> domains self"
    by simp
qed

theorem solve_store_keeps_objects_witness:
  "solve_store two_store two_csp_ref False True = Some (Inr (two_store_after, two_result_ref)) \<and>
   take (length two_store) two_store_after = two_store \<and>
   two_store_after ! csp_values two_csp_ref = DictObject [(0, 1), (1, 2)] \<and>
   two_store_after ! 1 = ListObject [0, 1] \<and> two_store_after ! 2 = ListObject [0, 1] \<and>
   csp two_result_ref = two_csp_ref \<and> length two_store \<le> domains two_result_ref"
proof -
  have objs: "two_store_after ! csp_values two_csp_ref = DictObject [(0, 1), (1, 2)] \<and>
   two_store_after ! 1 = ListObject [0, 1] \<and> two_store_after ! 2 = ListObject [0, 1]"
    by (simp add: two_store_after_def two_csp_ref_def)
  from solve_store_keeps_objects [of two_store two_csp_ref False True two_store_after
      two_result_ref] solve_store_two objs
  show ?thesis by blast
qed



text \<open>
  C4. Let \<open>var\<close> have no entry in the assignment. If the unary factor of \<open>var\<close>
  exists and gives \<open>val\<close> the weight zero, \<^verbatim>\<open>check_factors\<close> returns \<^verbatim>\<open>False\<close>.
  Whenever \<^verbatim>\<open>check_factors\<close> returns a value at all, \<open>var\<close> had no entry and the
  value is \<^verbatim>\<open>True\<close> exactly if neither the unary weight of \<open>val\<close> is zero nor the
  binary weight of \<open>val\<close> with the value of some neighbour that has an entry. The
  method reads \<^verbatim>\<open>self.csp\<close> and the assignment and writes nothing, so it is a function
  of the two, the variable and the value.
\<close>

theorem check_factors_spec:
  "(\<not> contains a var \<longrightarrow>
      (\<exists>table. map_of (unary_factors (csp self)) var = Some (Some table) \<and>
               map_of table val = Some 0) \<longrightarrow>
      check_factors self a var val = Inr False) \<and>
   (check_factors self a var val = Inr b \<longrightarrow>
      \<not> contains a var \<and>
      b = (\<not> (\<exists>table. map_of (unary_factors (csp self)) var = Some (Some table) \<and>
                      map_of table val = Some 0) \<and>
           \<not> (\<exists>factors var2 factor val2 row.
                 map_of (binary_factors (csp self)) var = Some factors \<and>
                 (var2, factor) \<in> set factors \<and> map_of a var2 = Some val2 \<and>
                 map_of factor val = Some row \<and> map_of row val2 = Some 0)))"
  (is "(_ \<longrightarrow> ?UZ \<longrightarrow> _) \<and> (_ \<longrightarrow> _ \<and> b = (\<not> ?UZ \<and> \<not> ?BZ))")
proof (intro conjI impI)
  assume fresh: "\<not> contains a var" and "?UZ"
  then obtain table where t: "map_of (unary_factors (csp self)) var = Some (Some table)"
    and z: "map_of table val = Some 0" by blast
  from z have "table \<noteq> []" by auto
  with z have "check_unary (Some table) val = Inr False"
    by (cases table) (simp_all add: check_unary_def getitem_def)
  with fresh t show "check_factors self a var val = Inr False"
    by (simp add: check_factors_def getitem_def)
next
  assume run: "check_factors self a var val = Inr b"
  then show fresh: "\<not> contains a var" by (rule check_factors_unassigned)
  from run fresh obtain table where
    table: "map_of (unary_factors (csp self)) var = Some table"
    by (cases "map_of (unary_factors (csp self)) var")
       (simp_all add: check_factors_def getitem_def)
  from run fresh table obtain u where u: "check_unary table val = Inr u"
    by (cases "check_unary table val") (simp_all add: check_factors_def getitem_def)
  have uz: "u = (\<not> ?UZ)"
  proof (cases table)
    case None
    with u table show ?thesis by (simp add: check_unary_def)
  next
    case (Some t)
    show ?thesis
    proof (cases t)
      case Nil
      with u table Some show ?thesis by (simp add: check_unary_def)
    next
      case (Cons p ps)
      with u Some obtain w where w: "map_of t val = Some w" and "u = (w \<noteq> 0)"
        by (cases "map_of t val") (auto simp: check_unary_def getitem_def)
      with table Some show ?thesis by simp
    qed
  qed
  show "b = (\<not> ?UZ \<and> \<not> ?BZ)"
  proof (cases u)
    case False
    with run fresh table u have "b = False"
      by (simp add: check_factors_def getitem_def)
    with False uz show ?thesis by simp
  next
    case True
    with run fresh table u obtain factors where
      factors: "map_of (binary_factors (csp self)) var = Some factors" and
      bin: "check_binary a val factors = Inr b"
      by (cases "map_of (binary_factors (csp self)) var")
         (simp_all add: check_factors_def getitem_def)
    from check_binary_spec [OF bin] factors have "b = (\<not> ?BZ)" by simp
    with True uz show ?thesis by simp
  qed
qed

theorem check_factors_spec_witness:
  "\<not> contains [(0 :: nat, 0 :: nat)] (1 :: nat) \<and>
   check_factors (two_start False False) [(0, 0)] 1 0 = Inr False \<and>
   check_factors (two_start False False) [(0, 0)] 1 1 = Inr True \<and>
   map_of (unary_factors (csp (two_start False False))) 1 = Some None \<and>
   map_of (binary_factors (csp (two_start False False))) 1
     = Some [(0, [(0, [(0, 0), (1, 1)]), (1, [(0, 1), (1, 0)])])] \<and>
   \<not> contains ([] :: (nat \<times> nat) list) (0 :: nat) \<and>
   map_of (unary_factors (csp picky_start)) 0 = Some (Some [(0, 0), (1, 1)]) \<and>
   map_of [(0 :: nat, 0 :: int), (1, 1)] 0 = Some 0 \<and>
   check_factors picky_start [] 0 0 = Inr False"
proof -
  have f: "check_factors (two_start False False) [(0, 0)] 1 0 = Inr False" by code_simp
  have t: "check_factors (two_start False False) [(0, 0)] 1 1 = Inr True" by code_simp
  have c: "\<not> contains [(0 :: nat, 0 :: nat)] (1 :: nat)" by code_simp
  have u: "map_of (unary_factors (csp (two_start False False))) 1 = Some None" by code_simp
  have b: "map_of (binary_factors (csp (two_start False False))) 1
     = Some [(0, [(0, [(0, 0), (1, 1)]), (1, [(0, 1), (1, 0)])])]" by code_simp
  have c': "\<not> contains ([] :: (nat \<times> nat) list) (0 :: nat)" by code_simp
  have u': "map_of (unary_factors (csp picky_start)) 0 = Some (Some [(0, 0), (1, 1)])"
    by code_simp
  have z: "map_of [(0 :: nat, 0 :: int), (1, 1)] 0 = Some 0" by simp
  from check_factors_spec [of "[]" 0 picky_start 0] c' u' z
  have p: "check_factors picky_start [] 0 0 = Inr False" by blast
  from check_factors_spec [of "[(0, 0)]" 1 "two_start False False" 0 False]
    check_factors_spec [of "[(0, 0)]" 1 "two_start False False" 1 True] f t c u b c' u' z p
  show ?thesis by blast
qed

text \<open>
  C5. Let some declared variable have no entry in the assignment. Without \<^verbatim>\<open>mcv\<close>,
  \<^verbatim>\<open>get_unassigned_variable\<close> returns the first declared variable without an entry:
  every variable declared before it has one. With \<^verbatim>\<open>mcv\<close>, whenever it returns, it
  returns a variable \<open>var\<close> without an entry for which the number of values \<open>x\<close> of
  \<^verbatim>\<open>self.domains[var]\<close> with \<^verbatim>\<open>check_factors(assignment, var, x)\<close> true is least:
  every unassigned variable declared before it has more such values in its own domain,
  and every one declared after it has at least as many. It returns whenever every
  unassigned variable has a domain and \<^verbatim>\<open>check_factors\<close> returns for each of its
  values.
\<close>

theorem get_unassigned_variable_spec:
  "(\<not> mcv self \<longrightarrow> (\<exists>v\<in>set (variables (csp self)). \<not> contains a v) \<longrightarrow>
      (\<exists>var pre post. get_unassigned_variable self a = Inr (Some var) \<and>
          variables (csp self) = pre @ var # post \<and> \<not> contains a var \<and>
          (\<forall>u\<in>set pre. contains a u))) \<and>
   (mcv self \<longrightarrow> (\<exists>v\<in>set (variables (csp self)). \<not> contains a v) \<longrightarrow>
      get_unassigned_variable self a = Inr r \<longrightarrow>
      (\<exists>var d pre post. r = Some var \<and>
          variables (csp self) = pre @ var # post \<and> \<not> contains a var \<and>
          map_of (domains self) var = Some d \<and>
          (\<forall>u\<in>set pre. \<not> contains a u \<longrightarrow>
             (\<exists>du. map_of (domains self) u = Some du \<and>
                length (filter (\<lambda>x. check_factors self a var x = Inr True) d)
                  < length (filter (\<lambda>x. check_factors self a u x = Inr True) du))) \<and>
          (\<forall>u\<in>set post. \<not> contains a u \<longrightarrow>
             (\<exists>du. map_of (domains self) u = Some du \<and>
                length (filter (\<lambda>x. check_factors self a var x = Inr True) d)
                  \<le> length (filter (\<lambda>x. check_factors self a u x = Inr True) du))))) \<and>
   (mcv self \<longrightarrow> (\<exists>v\<in>set (variables (csp self)). \<not> contains a v) \<longrightarrow>
      (\<forall>u\<in>set (variables (csp self)). \<not> contains a u \<longrightarrow>
         (\<exists>du. map_of (domains self) u = Some du \<and>
            (\<forall>x\<in>set du. \<exists>b. check_factors self a u x = Inr b))) \<longrightarrow>
      (\<exists>var. get_unassigned_variable self a = Inr (Some var)))"
proof (intro conjI impI)
  assume "\<not> mcv self" and "\<exists>v\<in>set (variables (csp self)). \<not> contains a v"
  then show "\<exists>var pre post. get_unassigned_variable self a = Inr (Some var) \<and>
          variables (csp self) = pre @ var # post \<and> \<not> contains a var \<and>
          (\<forall>u\<in>set pre. contains a u)"
    using first_unassigned_spec [of "variables (csp self)" a]
    by (simp add: get_unassigned_variable_def)
next
  assume m: "mcv self" and ex: "\<exists>v\<in>set (variables (csp self)). \<not> contains a v"
    and run: "get_unassigned_variable self a = Inr r"
  from ex obtain v0 rest where vs: "variables (csp self) = v0 # rest"
    by (cases "variables (csp self)") auto
  with m run obtain var where r: "r = Some var"
    and loop: "mcv_loop self a \<infinity> v0 (variables (csp self)) = Inr var"
    by (cases "mcv_loop self a \<infinity> v0 (variables (csp self))")
       (auto simp: get_unassigned_variable_def)
  from ex obtain u where u: "u \<in> set (variables (csp self))" "\<not> contains a u" by blast
  have "\<not> (\<forall>u\<in>set (variables (csp self)). \<not> contains a u \<longrightarrow>
       (\<exists>k. num_consistent_val self a u = Inr k \<and> \<infinity> \<le> enat k))"
    using u by auto
  with mcv_loop_spec [OF loop]
  obtain n pre post where split: "variables (csp self) = pre @ var # post"
    and fresh: "\<not> contains a var"
    and count: "num_consistent_val self a var = Inr n"
    and before: "\<forall>u\<in>set pre. \<not> contains a u \<longrightarrow>
        (\<exists>k. num_consistent_val self a u = Inr k \<and> n < k)"
    and after: "\<forall>u\<in>set post. \<not> contains a u \<longrightarrow>
        (\<exists>k. num_consistent_val self a u = Inr k \<and> n \<le> k)"
    by blast
  from num_consistent_val_filter [OF count] obtain d where
    d: "map_of (domains self) var = Some d"
    and n: "n = length (filter (\<lambda>x. check_factors self a var x = Inr True) d)"
    by blast
  have b: "\<forall>u\<in>set pre. \<not> contains a u \<longrightarrow>
             (\<exists>du. map_of (domains self) u = Some du \<and>
                length (filter (\<lambda>x. check_factors self a var x = Inr True) d)
                  < length (filter (\<lambda>x. check_factors self a u x = Inr True) du))"
  proof (intro ballI impI)
    fix u assume "u \<in> set pre" and "\<not> contains a u"
    with before obtain k where k: "num_consistent_val self a u = Inr k" "n < k" by blast
    from num_consistent_val_filter [OF k(1)] k(2) n
    show "\<exists>du. map_of (domains self) u = Some du \<and>
                length (filter (\<lambda>x. check_factors self a var x = Inr True) d)
                  < length (filter (\<lambda>x. check_factors self a u x = Inr True) du)"
      by auto
  qed
  have c: "\<forall>u\<in>set post. \<not> contains a u \<longrightarrow>
             (\<exists>du. map_of (domains self) u = Some du \<and>
                length (filter (\<lambda>x. check_factors self a var x = Inr True) d)
                  \<le> length (filter (\<lambda>x. check_factors self a u x = Inr True) du))"
  proof (intro ballI impI)
    fix u assume "u \<in> set post" and "\<not> contains a u"
    with after obtain k where k: "num_consistent_val self a u = Inr k" "n \<le> k" by blast
    from num_consistent_val_filter [OF k(1)] k(2) n
    show "\<exists>du. map_of (domains self) u = Some du \<and>
                length (filter (\<lambda>x. check_factors self a var x = Inr True) d)
                  \<le> length (filter (\<lambda>x. check_factors self a u x = Inr True) du)"
      by auto
  qed
  from r split fresh d b c
  show "\<exists>var d pre post. r = Some var \<and>
          variables (csp self) = pre @ var # post \<and> \<not> contains a var \<and>
          map_of (domains self) var = Some d \<and>
          (\<forall>u\<in>set pre. \<not> contains a u \<longrightarrow>
             (\<exists>du. map_of (domains self) u = Some du \<and>
                length (filter (\<lambda>x. check_factors self a var x = Inr True) d)
                  < length (filter (\<lambda>x. check_factors self a u x = Inr True) du))) \<and>
          (\<forall>u\<in>set post. \<not> contains a u \<longrightarrow>
             (\<exists>du. map_of (domains self) u = Some du \<and>
                length (filter (\<lambda>x. check_factors self a var x = Inr True) d)
                  \<le> length (filter (\<lambda>x. check_factors self a u x = Inr True) du)))"
    by blast
next
  assume m: "mcv self" and ex: "\<exists>v\<in>set (variables (csp self)). \<not> contains a v"
    and wf: "\<forall>u\<in>set (variables (csp self)). \<not> contains a u \<longrightarrow>
         (\<exists>du. map_of (domains self) u = Some du \<and>
            (\<forall>x\<in>set du. \<exists>b. check_factors self a u x = Inr b))"
  from ex obtain v0 rest where vs: "variables (csp self) = v0 # rest"
    by (cases "variables (csp self)") auto
  have "\<forall>u\<in>set (variables (csp self)). \<not> contains a u \<longrightarrow>
      (\<exists>k. num_consistent_val self a u = Inr k)"
  proof (intro ballI impI)
    fix u assume "u \<in> set (variables (csp self))" and "\<not> contains a u"
    with wf obtain du where "map_of (domains self) u = Some du"
      and "\<forall>x\<in>set du. \<exists>b. check_factors self a u x = Inr b" by blast
    then show "\<exists>k. num_consistent_val self a u = Inr k"
      by (rule num_consistent_val_returns)
  qed
  from mcv_loop_returns [OF this] obtain var where
    "mcv_loop self a \<infinity> v0 (variables (csp self)) = Inr var" by blast
  with m vs show "\<exists>var. get_unassigned_variable self a = Inr (Some var)"
    by (simp add: get_unassigned_variable_def)
qed


theorem get_unassigned_variable_spec_witness:
  "\<not> mcv (uneven_start False) \<and>
   1 \<in> set (variables (csp (uneven_start False))) \<and> \<not> contains [(0 :: nat, 1 :: nat)] (1 :: nat) \<and>
   get_unassigned_variable (uneven_start False) [(0, 1)] = Inr (Some 1) \<and>
   variables (csp (uneven_start False)) = [0] @ 1 # [2] \<and>
   contains [(0 :: nat, 1 :: nat)] (0 :: nat) \<and>
   mcv selective_start \<and>
   variables (csp selective_start) = [0, 1] @ 2 # [] \<and>
   contains [(0 :: nat, 0 :: nat)] (0 :: nat) \<and>
   \<not> contains [(0 :: nat, 0 :: nat)] (1 :: nat) \<and>
   \<not> contains [(0 :: nat, 0 :: nat)] (2 :: nat) \<and>
   map_of (domains selective_start) 1 = Some [0, 1] \<and>
   map_of (domains selective_start) 2 = Some [0, 1, 2] \<and>
   check_factors selective_start [(0, 0)] 1 0 = Inr True \<and>
   check_factors selective_start [(0, 0)] 1 1 = Inr True \<and>
   check_factors selective_start [(0, 0)] 2 0 = Inr False \<and>
   check_factors selective_start [(0, 0)] 2 1 = Inr False \<and>
   check_factors selective_start [(0, 0)] 2 2 = Inr True \<and>
   get_unassigned_variable selective_start [(0, 0)] = Inr (Some 2) \<and>
   length (filter (\<lambda>x. check_factors selective_start [(0, 0)] 2 x = Inr True) [0, 1, 2]) = 1 \<and>
   length (filter (\<lambda>x. check_factors selective_start [(0, 0)] 1 x = Inr True) [0, 1]) = 2"
proof -
  have s1: "\<not> mcv (uneven_start False)" by code_simp
  have s2: "1 \<in> set (variables (csp (uneven_start False)))" by code_simp
  have s3: "\<not> contains [(0 :: nat, 1 :: nat)] (1 :: nat)" by code_simp
  have s4: "get_unassigned_variable (uneven_start False) [(0, 1)] = Inr (Some 1)" by code_simp
  have s5: "variables (csp (uneven_start False)) = [0] @ 1 # [2]" by code_simp
  have s6: "contains [(0 :: nat, 1 :: nat)] (0 :: nat)" by code_simp
  have m1: "mcv selective_start" by code_simp
  have m2: "variables (csp selective_start) = [0, 1] @ 2 # []" by code_simp
  have m3: "contains [(0 :: nat, 0 :: nat)] (0 :: nat)" by code_simp
  have m4: "\<not> contains [(0 :: nat, 0 :: nat)] (1 :: nat)" by code_simp
  have m5: "\<not> contains [(0 :: nat, 0 :: nat)] (2 :: nat)" by code_simp
  have d1: "map_of (domains selective_start) 1 = Some [0, 1]" by code_simp
  have d2: "map_of (domains selective_start) 2 = Some [0, 1, 2]" by code_simp
  have c10: "check_factors selective_start [(0, 0)] 1 0 = Inr True" by code_simp
  have c11: "check_factors selective_start [(0, 0)] 1 1 = Inr True" by code_simp
  have c20: "check_factors selective_start [(0, 0)] 2 0 = Inr False" by code_simp
  have c21: "check_factors selective_start [(0, 0)] 2 1 = Inr False" by code_simp
  have c22: "check_factors selective_start [(0, 0)] 2 2 = Inr True" by code_simp
  have run: "get_unassigned_variable selective_start [(0, 0)] = Inr (Some 2)" by code_simp
  have l1: "length (filter (\<lambda>x. check_factors selective_start [(0, 0)] 1 x = Inr True) [0, 1]) = 2"
    using c10 c11 by simp
  have l2: "length (filter (\<lambda>x. check_factors selective_start [(0, 0)] 2 x = Inr True) [0, 1, 2]) = 1"
    using c20 c21 c22 by simp
  have ex: "\<exists>v\<in>set (variables (csp selective_start)). \<not> contains [(0 :: nat, 0 :: nat)] v"
    using m2 m5 by simp
  have wf: "\<forall>u\<in>set (variables (csp selective_start)). \<not> contains [(0 :: nat, 0 :: nat)] u \<longrightarrow>
         (\<exists>du. map_of (domains selective_start) u = Some du \<and>
            (\<forall>x\<in>set du. \<exists>b. check_factors selective_start [(0, 0)] u x = Inr b))"
    unfolding m2 using m3 d1 d2 c10 c11 c20 c21 c22 by auto
  from get_unassigned_variable_spec [of "uneven_start False" "[(0, 1)]"]
    get_unassigned_variable_spec [of selective_start "[(0, 0)]" "Some 2"]
    s1 s2 s3 s4 s5 s6 m1 m2 m3 m4 m5 d1 d2 c10 c11 c20 c21 c22 l1 l2 run ex wf
  show ?thesis by blast
qed




text \<open>
  C2. On the CSP with one variable, two values and no factor, \<^verbatim>\<open>solve\<close> records both
  assignments when \<^verbatim>\<open>ac3\<close> is off and raises \<^verbatim>\<open>NameError\<close> when \<^verbatim>\<open>ac3\<close> is on,
  with either setting of \<^verbatim>\<open>mcv\<close>.
\<close>

theorem solve_single_csp_flags:
  "solve single_csp False False =
     Some (Inr \<lparr>num_assignments = 2, num_operations = 3, first_assignment_num_operations = 2,
                all_assignments = [[(0, 0)], [(0, 1)]], csp = single_csp,
                mcv = False, ac3 = False, domains = [(0, [0, 1])]\<rparr>) \<and>
   solve single_csp True False =
     Some (Inr \<lparr>num_assignments = 2, num_operations = 3, first_assignment_num_operations = 2,
                all_assignments = [[(0, 0)], [(0, 1)]], csp = single_csp,
                mcv = True, ac3 = False, domains = [(0, [0, 1])]\<rparr>) \<and>
   solve single_csp False True = Some (Inl NameError) \<and>
   solve single_csp True True = Some (Inl NameError)"
  by code_simp

text \<open>
  C1. Started at variable \<open>0\<close> of \<open>fork_csp\<close>, the first pass of the \<^verbatim>\<open>while\<close> loop
  empties the domain of neighbour \<open>1\<close> and does not return: it goes on with neighbour
  \<open>2\<close>, tests only the domain of \<open>2\<close> at line 256, and continues with \<open>1\<close> in the
  queue. \<^verbatim>\<open>False\<close> is returned one pass later, after the domain of \<open>0\<close> has been
  emptied as well. When variable \<open>1\<close> has no factors of its own, the second pass tests
  the domain of \<open>2\<close> again and the method returns \<^verbatim>\<open>True\<close> with the domain of \<open>1\<close>
  empty.
\<close>

theorem arc_consistency_check_misses_empty_domain:
  "while_body fork_csp 0 ([(0, [0]), (1, [0]), (2, [0])], [], None) =
     Inr (Inr ([(0, [0]), (1, []), (2, [0])], [1], Some 2)) \<and>
   arc_consistency_check fork_start 0 =
     Inr (False, fork_start\<lparr>domains := [(0, []), (1, []), (2, [0])]\<rparr>) \<and>
   arc_consistency_check lopsided_start 0 =
     Inr (True, lopsided_start\<lparr>domains := [(0, [0]), (1, []), (2, [0])]\<rparr>)"
  by code_simp

end
